theory Spec2Isabelle
  imports Main
begin

section \<open>Data model\<close>

text \<open>
  The program is one Python module with four functions: \<open>get_accounts_by_ou\<close>,
  \<open>get_ou_details\<close>, \<open>create_or_update_cost_category\<close> and \<open>lambda_handler\<close>.
  It talks to two remote services through client objects. A Python string is a list of
  characters; a \<open>botocore\<close> \<open>ClientError\<close> is represented by its diagnostic text,
  \<open>str(e)\<close>.
\<close>

datatype client_error = ClientError string

fun str :: "client_error \<Rightarrow> string" where
  "str (ClientError msg) = msg"

text \<open>
  The exceptions that are not a \<open>ClientError\<close> and that the module can raise: indexing
  an empty list, and exceeding the interpreter's recursion depth. No \<open>except\<close> clause of
  the module catches them.
\<close>

datatype py_exception = IndexError | RecursionError

text \<open>An element of \<open>page['Accounts']\<close>, with the three keys the module reads.\<close>

record account =
  account_Id :: string
  account_Name :: string
  account_Status :: string

text \<open>The dictionary \<open>{'Id': ..., 'Name': ...}\<close> that the collector appends.\<close>

record account_entry =
  entry_Id :: string
  entry_Name :: string

text \<open>
  A paginator is iterated lazily: it yields its pages in order and may then raise a
  \<open>ClientError\<close> instead of yielding the next page. \<open>pages\<close> are the pages that
  were delivered, \<open>failure\<close> the error raised after them, if any.
\<close>

datatype 'a paginated = Paginated (pages: "'a list list") (failure: "client_error option")

text \<open>
  The organizations client. \<open>list_roots\<close> gives the \<open>Id\<close> of each element of
  \<open>Roots\<close>; \<open>list_children\<close> is the paginator called with
  \<open>ChildType='ORGANIZATIONAL_UNIT'\<close> and gives the \<open>Id\<close> of each child;
  \<open>describe_organizational_unit\<close> gives \<open>response['OrganizationalUnit']['Name']\<close>.
\<close>

record directory =
  list_roots :: "client_error + string list"
  list_children :: "string \<Rightarrow> string paginated"
  list_accounts_for_parent :: "string \<Rightarrow> account paginated"
  describe_organizational_unit :: "string \<Rightarrow> client_error + string"

text \<open>The rule dictionaries sent to the cost-category service.\<close>

record dimensions =
  Key :: string
  Values :: "string list"
  MatchOptions :: "string list"

record rule =
  Value :: string
  Dimensions :: dimensions

text \<open>An element of \<open>CostCategoryReferences\<close>.\<close>

record cost_category_reference =
  ref_Name :: string
  CostCategoryArn :: string

text \<open>
  The cost-explorer client over a store state \<open>'s\<close>. A call either fails with a
  \<open>ClientError\<close>, leaving the store as it is, or succeeds. The listing gives
  \<open>existing_categories.get('CostCategoryReferences', [])\<close>. The arguments of
  \<open>create_cost_category_definition\<close> are \<open>Name\<close>, \<open>RuleVersion\<close>, \<open>Rules\<close>
  and \<open>DefaultValue\<close>; those of \<open>update_cost_category_definition\<close> are
  \<open>CostCategoryArn\<close>, \<open>RuleVersion\<close> and \<open>Rules\<close>.
\<close>

record 's ce_client =
  list_cost_category_definitions :: "'s \<Rightarrow> client_error + cost_category_reference list"
  create_cost_category_definition ::
    "string \<Rightarrow> string \<Rightarrow> rule list \<Rightarrow> string \<Rightarrow> 's \<Rightarrow> client_error + 's"
  update_cost_category_definition ::
    "string \<Rightarrow> string \<Rightarrow> rule list \<Rightarrow> 's \<Rightarrow> client_error + 's"

text \<open>
  What a run does besides returning: the remote calls it issues and the lines it prints,
  in order. A paginated listing is one event, recorded when the iteration starts.
\<close>

datatype event =
    ListRoots
  | ListAccountsForParent string
  | ListChildren string
  | DescribeOrganizationalUnit string
  | ListCostCategoryDefinitions
  | UpdateCostCategoryDefinition string string "rule list"
  | CreateCostCategoryDefinition string string "rule list" string
  | Print string

fun is_create :: "event \<Rightarrow> bool" where
  "is_create (CreateCostCategoryDefinition n v r d) = True"
| "is_create _ = False"

fun is_update :: "event \<Rightarrow> bool" where
  "is_update (UpdateCostCategoryDefinition a v r) = True"
| "is_update _ = False"

fun is_store_call :: "event \<Rightarrow> bool" where
  "is_store_call ListCostCategoryDefinitions = True"
| "is_store_call (UpdateCostCategoryDefinition a v r) = True"
| "is_store_call (CreateCostCategoryDefinition n v r d) = True"
| "is_store_call _ = False"

section \<open>The tree collector\<close>

text \<open>
  The inner loop of the first \<open>try\<close> block: the accounts of the delivered pages whose
  status is \<open>'ACTIVE'\<close>, each as an \<open>{'Id', 'Name'}\<close> dictionary.
\<close>

definition active_entries :: "account list \<Rightarrow> account_entry list" where
  "active_entries accts =
     map (\<lambda>a. \<lparr>entry_Id = account_Id a, entry_Name = account_Name a\<rparr>)
       (filter (\<lambda>a. account_Status a = ''ACTIVE'') accts)"

text \<open>
  The loop over the children: \<open>accounts.extend(get_accounts_by_ou(client, child['Id']))\<close>
  for each child in turn. An exception of a recursive call (\<open>None\<close>) ends the loop.
\<close>

fun extend_children ::
  "(string \<Rightarrow> (account_entry list \<times> event list) option) \<Rightarrow> string list \<Rightarrow>
   (account_entry list \<times> event list) option" where
  "extend_children f [] = Some ([], [])"
| "extend_children f (child # children) =
     (case f child of
        None \<Rightarrow> None
      | Some (child_accounts, t) \<Rightarrow>
          (case extend_children f children of
             None \<Rightarrow> None
           | Some (rest, ts) \<Rightarrow> Some (child_accounts @ rest, t @ ts)))"

text \<open>
  \<open>get_accounts_by_ou\<close>. The first argument is the recursion depth still available:
  the function calls itself once per level of the tree, with no bound of its own, so on a
  hierarchy that is too deep or cyclic the interpreter raises \<open>RecursionError\<close>, which
  no handler of the module catches; that is the result \<open>None\<close>. Otherwise the result
  is the returned list with the events of the call.
\<close>

primrec get_accounts_by_ou ::
  "nat \<Rightarrow> directory \<Rightarrow> string \<Rightarrow> (account_entry list \<times> event list) option" where
  "get_accounts_by_ou 0 organizations_client ou_id = None"
| "get_accounts_by_ou (Suc depth) organizations_client ou_id =
     (case list_accounts_for_parent organizations_client ou_id of
        Paginated account_pages account_failure \<Rightarrow>
          (let accounts = active_entries (concat account_pages) in
           case account_failure of
             Some e \<Rightarrow>
               Some (accounts,
                 [ListAccountsForParent ou_id,
                  Print (''Error getting accounts for OU '' @ ou_id @ '': '' @ str e)])
           | None \<Rightarrow>
               (case list_children organizations_client ou_id of
                  Paginated child_pages child_failure \<Rightarrow>
                    (case extend_children (get_accounts_by_ou depth organizations_client)
                            (concat child_pages) of
                       None \<Rightarrow> None
                     | Some (child_accounts, t) \<Rightarrow>
                         Some (accounts @ child_accounts,
                           [ListAccountsForParent ou_id, ListChildren ou_id] @ t @
                           (case child_failure of
                              Some e \<Rightarrow>
                                [Print (''Error getting child OUs for '' @ ou_id @ '': '' @ str e)]
                            | None \<Rightarrow> []))))))"

section \<open>Display names\<close>

text \<open>\<open>get_ou_details\<close>: the display name, or \<open>None\<close> after a logged failure.\<close>

definition get_ou_details :: "directory \<Rightarrow> string \<Rightarrow> string option \<times> event list" where
  "get_ou_details organizations_client ou_id =
     (case describe_organizational_unit organizations_client ou_id of
        Inr name \<Rightarrow> (Some name, [DescribeOrganizationalUnit ou_id])
      | Inl e \<Rightarrow>
          (None,
           [DescribeOrganizationalUnit ou_id,
            Print (''Error getting OU details for '' @ ou_id @ '': '' @ str e)]))"

section \<open>The category reconciler\<close>

text \<open>The one-element \<open>rules\<close> list built from the display name and the account ids.\<close>

definition build_rules :: "string \<Rightarrow> string list \<Rightarrow> rule list" where
  "build_rules ou_name account_ids =
     [\<lparr>Value = ou_name,
       Dimensions = \<lparr>Key = ''LINKED_ACCOUNT'', Values = account_ids,
                     MatchOptions = [''EQUALS'']\<rparr>\<rparr>]"

text \<open>
  \<open>create_or_update_cost_category\<close>. The result is the exception that escapes the
  function, if any, the store after the call and the events. The subscript \<open>[...][0]\<close>
  of the update branch raises \<open>IndexError\<close> on an empty list; that is not a
  \<open>ClientError\<close>, so the handler of the function would not catch it.
\<close>

definition create_or_update_cost_category ::
  "'s ce_client \<Rightarrow> string \<Rightarrow> string list \<Rightarrow> 's \<Rightarrow> py_exception option \<times> 's \<times> event list" where
  "create_or_update_cost_category ce_client ou_name account_ids s =
     (let category_name = ''OU-'' @ ou_name;
          failed = (\<lambda>e. Print (''Error managing cost category '' @ category_name @ '': '' @ str e))
      in
      case list_cost_category_definitions ce_client s of
        Inl e \<Rightarrow> (None, s, [ListCostCategoryDefinitions, failed e])
      | Inr existing_categories \<Rightarrow>
          (let category_exists = list_ex (\<lambda>cat. ref_Name cat = category_name) existing_categories;
               rules = build_rules ou_name account_ids
           in
           if category_exists then
             (case filter (\<lambda>cat. ref_Name cat = category_name) existing_categories of
                [] \<Rightarrow> (Some IndexError, s, [ListCostCategoryDefinitions])
              | cat # _ \<Rightarrow>
                  (let call = UpdateCostCategoryDefinition (CostCategoryArn cat)
                                ''CostCategoryExpression.v1'' rules
                   in
                   case update_cost_category_definition ce_client (CostCategoryArn cat)
                          ''CostCategoryExpression.v1'' rules s of
                     Inl e \<Rightarrow> (None, s, [ListCostCategoryDefinitions, call, failed e])
                   | Inr s' \<Rightarrow>
                       (None, s',
                        [ListCostCategoryDefinitions, call,
                         Print (''Updated cost category: '' @ category_name)])))
           else
             (let call = CreateCostCategoryDefinition category_name
                           ''CostCategoryExpression.v1'' rules ''Other''
              in
              case create_cost_category_definition ce_client category_name
                     ''CostCategoryExpression.v1'' rules ''Other'' s of
                Inl e \<Rightarrow> (None, s, [ListCostCategoryDefinitions, call, failed e])
              | Inr s' \<Rightarrow>
                  (None, s',
                   [ListCostCategoryDefinitions, call,
                    Print (''Created cost category: '' @ category_name)]))))"

section \<open>The orchestrator\<close>

text \<open>
  \<open>json.dumps\<close> on a string, with the default \<open>ensure_ascii\<close>: the string between
  double quotes, where the double quote, the backslash and the five short control
  escapes are written with a backslash, the other characters from the space to the tilde
  stand for themselves, and every other character is written \<open>\u\<close> and four
  hexadecimal digits. Characters are code points below 256.
\<close>

definition hex4 :: "nat \<Rightarrow> string" where
  "hex4 n = map (\<lambda>k. ''0123456789abcdef'' ! ((n div 16 ^ k) mod 16)) [3, 2, 1, 0]"

definition json_escape :: "char \<Rightarrow> string" where
  "json_escape c =
     (if c = CHR 0x22 then [CHR 0x5C, CHR 0x22]
      else if c = CHR 0x5C then [CHR 0x5C, CHR 0x5C]
      else if c = CHR 0x0A then [CHR 0x5C, CHR ''n'']
      else if c = CHR 0x0D then [CHR 0x5C, CHR ''r'']
      else if c = CHR 0x09 then [CHR 0x5C, CHR ''t'']
      else if c = CHR 0x0C then [CHR 0x5C, CHR ''f'']
      else if c = CHR 0x08 then [CHR 0x5C, CHR ''b'']
      else if (0x20::nat) \<le> of_char c \<and> of_char c \<le> (0x7E::nat) then [c]
      else [CHR 0x5C, CHR ''u''] @ hex4 (of_char c))"

definition json_dumps :: "string \<Rightarrow> string" where
  "json_dumps s = [CHR 0x22] @ concat (map json_escape s) @ [CHR 0x22]"

record response =
  statusCode :: int
  body :: string

definition success_response :: response where
  "success_response =
     \<lparr>statusCode = 200, body = json_dumps ''Cost categories updated successfully''\<rparr>"

definition failure_response :: "client_error \<Rightarrow> response" where
  "failure_response e = \<lparr>statusCode = 500, body = json_dumps (''Error: '' @ str e)\<rparr>"

text \<open>
  The body of the loop of \<open>lambda_handler\<close> for one top-level OU. \<open>if not ou_name\<close>
  holds for \<open>None\<close> and for the empty string. The result is the exception that escapes,
  if any, the store and the events; when the collector raises, the events are those
  before its call.
\<close>

definition process_ou ::
  "nat \<Rightarrow> directory \<Rightarrow> 's ce_client \<Rightarrow> string \<Rightarrow> 's \<Rightarrow> py_exception option \<times> 's \<times> event list" where
  "process_ou depth organizations_client ce_client ou s =
     (case get_ou_details organizations_client ou of
        (None, t1) \<Rightarrow> (None, s, t1)
      | (Some ou_name, t1) \<Rightarrow>
          if ou_name = [] then (None, s, t1)
          else
            (case get_accounts_by_ou depth organizations_client ou of
               None \<Rightarrow> (Some RecursionError, s, t1)
             | Some (accounts, t2) \<Rightarrow>
                 (let account_ids = map entry_Id accounts in
                  if account_ids \<noteq> [] then
                    (case create_or_update_cost_category ce_client ou_name account_ids s of
                       (x, s', t3) \<Rightarrow> (x, s', t1 @ t2 @ t3))
                  else (None, s, t1 @ t2))))"

text \<open>The loop over the top-level OUs; an exception ends it.\<close>

fun process_ous ::
  "nat \<Rightarrow> directory \<Rightarrow> 's ce_client \<Rightarrow> string list \<Rightarrow> 's \<Rightarrow>
   py_exception option \<times> 's \<times> event list" where
  "process_ous depth organizations_client ce_client [] s = (None, s, [])"
| "process_ous depth organizations_client ce_client (ou # ous) s =
     (case process_ou depth organizations_client ce_client ou s of
        (Some x, s', t) \<Rightarrow> (Some x, s', t)
      | (None, s', t) \<Rightarrow>
          (case process_ous depth organizations_client ce_client ous s' of
             (x, s'', ts) \<Rightarrow> (x, s'', t @ ts)))"

text \<open>
  \<open>lambda_handler\<close>. The two clients are arguments (the module builds them with
  \<open>boto3.client\<close>), \<open>event\<close> and \<open>context\<close> are not read. The outcome is the
  returned dictionary, or the exception that escapes the function. The OUs of the
  delivered pages are processed before a failure of the pagination is raised.
\<close>

definition lambda_handler ::
  "nat \<Rightarrow> directory \<Rightarrow> 's ce_client \<Rightarrow> 's \<Rightarrow> (py_exception + response) \<times> 's \<times> event list" where
  "lambda_handler depth organizations_client ce_client s =
     (case list_roots organizations_client of
        Inl e \<Rightarrow>
          (Inr (failure_response e), s,
           [ListRoots, Print (''Error in lambda execution: '' @ str e)])
      | Inr roots \<Rightarrow>
          (case roots of
             [] \<Rightarrow> (Inl IndexError, s, [ListRoots])
           | root_id # _ \<Rightarrow>
               (case list_children organizations_client root_id of
                  Paginated child_pages child_failure \<Rightarrow>
                    (case process_ous depth organizations_client ce_client
                            (concat child_pages) s of
                       (Some x, s', t) \<Rightarrow> (Inl x, s', [ListRoots, ListChildren root_id] @ t)
                     | (None, s', t) \<Rightarrow>
                         (case child_failure of
                            Some e \<Rightarrow>
                              (Inr (failure_response e), s',
                               [ListRoots, ListChildren root_id] @ t @
                               [Print (''Error in lambda execution: '' @ str e)])
                          | None \<Rightarrow>
                              (Inr success_response, s',
                               [ListRoots, ListChildren root_id] @ t))))))"

section \<open>Reference notions for the claims\<close>

subsection \<open>An OU tree and the directory that serves it\<close>

text \<open>
  A finite OU tree as the specification speaks of it: an OU has an identifier, the
  accounts it owns directly, and child OUs. This is not a structure of the program; it
  is what the directory's answers are compared with.
\<close>

datatype ou_tree = OU (ou_id: string) (ou_accounts: "account list") (ou_children: "ou_tree list")

text \<open>
  The directory serves the tree when, at every OU of the tree, both listings succeed
  (no page raises) and deliver the OU's direct accounts and the identifiers of its
  children.
\<close>

fun describes :: "directory \<Rightarrow> ou_tree \<Rightarrow> bool" where
  "describes d (OU i accts kids) =
     (failure (list_accounts_for_parent d i) = None \<and>
      concat (pages (list_accounts_for_parent d i)) = accts \<and>
      failure (list_children d i) = None \<and>
      concat (pages (list_children d i)) = map ou_id kids \<and>
      (\<forall>k \<in> set kids. describes d k))"

text \<open>The number of levels of the tree: the recursion depth a traversal needs.\<close>

fun height :: "ou_tree \<Rightarrow> nat" where
  "height (OU i accts kids) = Suc (foldr max (map height kids) 0)"

text \<open>The accounts directly owned by the OU and by all of its descendant OUs.\<close>

fun owned_accounts :: "ou_tree \<Rightarrow> account list" where
  "owned_accounts (OU i accts kids) = accts @ concat (map owned_accounts kids)"

definition entry_of :: "account \<Rightarrow> account_entry" where
  "entry_of a = \<lparr>entry_Id = account_Id a, entry_Name = account_Name a\<rparr>"

text \<open>
  The directory in which the OU has zero direct accounts: its account listing succeeds
  and is empty, everything else is unchanged.
\<close>

definition zero_direct_accounts :: "directory \<Rightarrow> string \<Rightarrow> directory" where
  "zero_direct_accounts d ou =
     d\<lparr>list_accounts_for_parent := (list_accounts_for_parent d)(ou := Paginated [] None)\<rparr>"

subsection \<open>Example directories\<close>

definition acct :: "string \<Rightarrow> string \<Rightarrow> string \<Rightarrow> account" where
  "acct i n s = \<lparr>account_Id = i, account_Name = n, account_Status = s\<rparr>"

text \<open>
  The chain \<open>ou-a -> ou-b -> ou-c\<close> under the root, one active account in each OU and
  a suspended one in \<open>ou-a\<close>, delivered on a page of its own.
\<close>

definition nested_directory :: directory where
  "nested_directory =
     \<lparr>list_roots = Inr [''r-1''],
      list_children = (\<lambda>p.
        if p = ''r-1'' then Paginated [[''ou-a'']] None
        else if p = ''ou-a'' then Paginated [[''ou-b'']] None
        else if p = ''ou-b'' then Paginated [[''ou-c'']] None
        else Paginated [] None),
      list_accounts_for_parent = (\<lambda>p.
        if p = ''ou-a'' then
          Paginated [[acct ''111'' ''a1'' ''ACTIVE''], [acct ''112'' ''a2'' ''SUSPENDED'']] None
        else if p = ''ou-b'' then Paginated [[acct ''221'' ''b1'' ''ACTIVE'']] None
        else if p = ''ou-c'' then Paginated [[acct ''331'' ''c1'' ''ACTIVE'']] None
        else Paginated [] None),
      describe_organizational_unit = (\<lambda>p.
        if p = ''ou-a'' then Inr ''Finance'' else Inl (ClientError ''not found''))\<rparr>"

definition nested_tree :: ou_tree where
  "nested_tree =
     OU ''ou-a'' [acct ''111'' ''a1'' ''ACTIVE'', acct ''112'' ''a2'' ''SUSPENDED'']
       [OU ''ou-b'' [acct ''221'' ''b1'' ''ACTIVE'']
          [OU ''ou-c'' [acct ''331'' ''c1'' ''ACTIVE''] []]]"

text \<open>
  \<open>ou-a\<close> owns one active account and has the child \<open>ou-b\<close>, which owns one active
  account. The two arguments are the error raised by the account listing of \<open>ou-a\<close>
  after its first page, and the error raised by its child listing after its first page.
\<close>

definition faulty_directory :: "client_error option \<Rightarrow> client_error option \<Rightarrow> directory" where
  "faulty_directory account_failure child_failure =
     \<lparr>list_roots = Inr [''r-1''],
      list_children = (\<lambda>p.
        if p = ''r-1'' then Paginated [[''ou-a'']] None
        else if p = ''ou-a'' then Paginated [[''ou-b'']] child_failure
        else Paginated [] None),
      list_accounts_for_parent = (\<lambda>p.
        if p = ''ou-a'' then Paginated [[acct ''111'' ''a1'' ''ACTIVE'']] account_failure
        else if p = ''ou-b'' then Paginated [[acct ''221'' ''b1'' ''ACTIVE'']] None
        else Paginated [] None),
      describe_organizational_unit = (\<lambda>p.
        if p = ''ou-a'' then Inr ''Finance'' else Inl (ClientError ''not found''))\<rparr>"

subsection \<open>A classification store\<close>

text \<open>
  Modelled from the spec: the classification store is a remote service, and the module
  holds none of its code. The specification says what the store does: it keeps named
  category definitions, each with a remote reference handle assigned by the store, a
  rule set and a default value; its listing gives the name and the handle of every
  definition; a create adds a definition with the given name, rule set and default
  value; an update replaces the rule set of the definition with the given handle.
\<close>

record cost_category_definition =
  def_Name :: string
  def_Arn :: string
  def_RuleVersion :: string
  def_Rules :: "rule list"
  def_DefaultValue :: string

type_synonym store = "cost_category_definition list"

text \<open>A handle that no definition of the store has: it is longer than each of them.\<close>

definition fresh_arn :: "store \<Rightarrow> string" where
  "fresh_arn s = replicate (Suc (foldr max (map (\<lambda>df. length (def_Arn df)) s) 0)) CHR ''a''"

definition store_list :: "store \<Rightarrow> client_error + cost_category_reference list" where
  "store_list s = Inr (map (\<lambda>df. \<lparr>ref_Name = def_Name df, CostCategoryArn = def_Arn df\<rparr>) s)"

definition store_create ::
  "string \<Rightarrow> string \<Rightarrow> rule list \<Rightarrow> string \<Rightarrow> store \<Rightarrow> client_error + store" where
  "store_create name version rules default_value s =
     Inr (s @ [\<lparr>def_Name = name, def_Arn = fresh_arn s, def_RuleVersion = version,
                def_Rules = rules, def_DefaultValue = default_value\<rparr>])"

definition store_update ::
  "string \<Rightarrow> string \<Rightarrow> rule list \<Rightarrow> store \<Rightarrow> client_error + store" where
  "store_update arn version rules s =
     (if arn \<in> set (map def_Arn s) then
        Inr (map (\<lambda>df. if def_Arn df = arn
                        then df\<lparr>def_RuleVersion := version, def_Rules := rules\<rparr> else df) s)
      else Inl (ClientError ''ResourceNotFoundException''))"

definition store_client :: "store ce_client" where
  "store_client =
     \<lparr>list_cost_category_definitions = store_list,
      create_cost_category_definition = store_create,
      update_cost_category_definition = store_update\<rparr>"

text \<open>The store's natural key and its handles identify a definition.\<close>

definition wf_store :: "store \<Rightarrow> bool" where
  "wf_store s = (distinct (map def_Name s) \<and> distinct (map def_Arn s))"

text \<open>
  The same store behind a client whose create and update calls are refused for one
  category name (by name for a create, by the handle of that name for an update).
\<close>

definition refusing_client :: "string \<Rightarrow> store ce_client" where
  "refusing_client name =
     \<lparr>list_cost_category_definitions = store_list,
      create_cost_category_definition = (\<lambda>n version rules default_value s.
        if n = name then Inl (ClientError ''LimitExceededException'')
        else store_create n version rules default_value s),
      update_cost_category_definition = (\<lambda>arn version rules s.
        if arn \<in> set (map def_Arn (filter (\<lambda>df. def_Name df = name) s))
        then Inl (ClientError ''ServiceQuotaExceededException'')
        else store_update arn version rules s)\<rparr>"

text \<open>
  The outcome of the remote calls that the reconciliation of a display name leads to in
  a store state: the error of the listing, or else the outcome of the update (when the
  listing holds the derived name; the first such reference gives the handle) or of the
  create (when it does not).
\<close>

definition store_call_result ::
  "'s ce_client \<Rightarrow> string \<Rightarrow> string list \<Rightarrow> 's \<Rightarrow> client_error + 's" where
  "store_call_result ce_client ou_name account_ids s =
     (case list_cost_category_definitions ce_client s of
        Inl e \<Rightarrow> Inl e
      | Inr existing \<Rightarrow>
          (case find (\<lambda>cat. ref_Name cat = ''OU-'' @ ou_name) existing of
             Some cat \<Rightarrow>
               update_cost_category_definition ce_client (CostCategoryArn cat)
                 ''CostCategoryExpression.v1'' (build_rules ou_name account_ids) s
           | None \<Rightarrow>
               create_cost_category_definition ce_client (''OU-'' @ ou_name)
                 ''CostCategoryExpression.v1'' (build_rules ou_name account_ids) ''Other'' s))"

definition store_call_fails :: "'s ce_client \<Rightarrow> string \<Rightarrow> string list \<Rightarrow> 's \<Rightarrow> bool" where
  "store_call_fails ce_client ou_name account_ids s =
     isl (store_call_result ce_client ou_name account_ids s)"

text \<open>The characters that \<open>json.dumps\<close> writes as they are.\<close>

definition json_plain :: "char \<Rightarrow> bool" where
  "json_plain c =
     ((0x20::nat) \<le> of_char c \<and> of_char c \<le> (0x7E::nat) \<and> c \<noteq> CHR 0x22 \<and> c \<noteq> CHR 0x5C)"

text \<open>A store that holds one definition, for the display name \<open>Finance\<close>.\<close>

definition finance_store :: store where
  "finance_store =
     [\<lparr>def_Name = ''OU-Finance'', def_Arn = ''arn:finance'',
       def_RuleVersion = ''CostCategoryExpression.v1'',
       def_Rules = build_rules ''Finance'' [''999''], def_DefaultValue = ''Other''\<rparr>]"

text \<open>
  Two top-level OUs under the root, \<open>ou-f\<close> (Finance) and \<open>ou-e\<close> (Engineering), one
  active account each; a third, \<open>ou-x\<close>, whose display-name lookup fails and a fourth,
  \<open>ou-z\<close> (Empty), with a suspended account only. The argument is the error raised by
  the listing of the root's children after its page, if any.
\<close>

definition departments :: "client_error option \<Rightarrow> directory" where
  "departments child_failure =
     \<lparr>list_roots = Inr [''r-1''],
      list_children = (\<lambda>p.
        if p = ''r-1'' then Paginated [[''ou-x'', ''ou-f'', ''ou-z'', ''ou-e'']] child_failure
        else Paginated [] None),
      list_accounts_for_parent = (\<lambda>p.
        if p = ''ou-f'' then Paginated [[acct ''111'' ''f1'' ''ACTIVE'']] None
        else if p = ''ou-e'' then Paginated [[acct ''222'' ''e1'' ''ACTIVE'']] None
        else if p = ''ou-z'' then Paginated [[acct ''333'' ''z1'' ''SUSPENDED'']] None
        else Paginated [] None),
      describe_organizational_unit = (\<lambda>p.
        if p = ''ou-f'' then Inr ''Finance''
        else if p = ''ou-e'' then Inr ''Engineering''
        else if p = ''ou-z'' then Inr ''Empty''
        else Inl (ClientError ''AccessDenied''))\<rparr>"

text \<open>A directory whose roots listing fails, one with no root, and one with a cycle.\<close>

definition unreachable_directory :: directory where
  "unreachable_directory =
     \<lparr>list_roots = Inl (ClientError ''AccessDenied''),
      list_children = (\<lambda>p. Paginated [] None),
      list_accounts_for_parent = (\<lambda>p. Paginated [] None),
      describe_organizational_unit = (\<lambda>p. Inl (ClientError ''AccessDenied''))\<rparr>"

definition rootless_directory :: directory where
  "rootless_directory =
     \<lparr>list_roots = Inr [],
      list_children = (\<lambda>p. Paginated [] None),
      list_accounts_for_parent = (\<lambda>p. Paginated [] None),
      describe_organizational_unit = (\<lambda>p. Inl (ClientError ''AccessDenied''))\<rparr>"

definition cyclic_directory :: directory where
  "cyclic_directory =
     \<lparr>list_roots = Inr [''r-1''],
      list_children = (\<lambda>p. Paginated [[''ou-a'']] None),
      list_accounts_for_parent = (\<lambda>p. Paginated [] None),
      describe_organizational_unit = (\<lambda>p. Inr ''Loop'')\<rparr>"

subsection \<open>What a run asks of the store\<close>

text \<open>
  The effect that one reconciliation is meant to have on the store, keyed by the derived
  name: the definition of that name gets the rule set built from the display name and the
  account ids, or, when there is none, a definition of that name is added.
\<close>

definition set_rules ::
  "string \<Rightarrow> string list \<Rightarrow> cost_category_definition \<Rightarrow> cost_category_definition" where
  "set_rules n ids df =
     (if def_Name df = ''OU-'' @ n
      then df\<lparr>def_RuleVersion := ''CostCategoryExpression.v1'', def_Rules := build_rules n ids\<rparr>
      else df)"

definition reconciled :: "store \<Rightarrow> string \<times> string list \<Rightarrow> store" where
  "reconciled s job =
     (case job of (n, ids) \<Rightarrow>
        if ''OU-'' @ n \<in> set (map def_Name s) then map (set_rules n ids) s
        else s @ [\<lparr>def_Name = ''OU-'' @ n, def_Arn = fresh_arn s,
                    def_RuleVersion = ''CostCategoryExpression.v1'',
                    def_Rules = build_rules n ids, def_DefaultValue = ''Other''\<rparr>])"

text \<open>
  The reconciliations that the loop over the top-level OUs reaches, in order: one for each
  OU with a non-empty display name and a non-empty collected list, up to the first OU at
  which the collector raises.
\<close>

fun jobs :: "nat \<Rightarrow> directory \<Rightarrow> string list \<Rightarrow> (string \<times> string list) list" where
  "jobs depth d [] = []"
| "jobs depth d (ou # ous) =
     (case describe_organizational_unit d ou of
        Inl e \<Rightarrow> jobs depth d ous
      | Inr n \<Rightarrow>
          if n = [] then jobs depth d ous
          else
            (case get_accounts_by_ou depth d ou of
               None \<Rightarrow> []
             | Some (accounts, t) \<Rightarrow>
                 if accounts = [] then jobs depth d ous
                 else (n, map entry_Id accounts) # jobs depth d ous))"

text \<open>The rule sets that a sequence of reconciliations leaves in one definition.\<close>

definition settle ::
  "(string \<times> string list) list \<Rightarrow> cost_category_definition \<Rightarrow> cost_category_definition" where
  "settle js df = foldl (\<lambda>df job. case job of (n, ids) \<Rightarrow> set_rules n ids df) df js"

text \<open>
  The store after a run over \<open>departments\<close> that started from \<open>finance_store\<close>: the
  Finance definition with its rules replaced, and a new Engineering definition.
\<close>

definition departments_store :: store where
  "departments_store =
     [\<lparr>def_Name = ''OU-Finance'', def_Arn = ''arn:finance'',
       def_RuleVersion = ''CostCategoryExpression.v1'',
       def_Rules = build_rules ''Finance'' [''111''], def_DefaultValue = ''Other''\<rparr>,
      \<lparr>def_Name = ''OU-Engineering'', def_Arn = ''aaaaaaaaaaaa'',
       def_RuleVersion = ''CostCategoryExpression.v1'',
       def_Rules = build_rules ''Engineering'' [''222''], def_DefaultValue = ''Other''\<rparr>]"

section \<open>The tree collector: results\<close>

lemma active_entries_append:
  "active_entries (xs @ ys) = active_entries xs @ active_entries ys"
  by (simp add: active_entries_def)

lemma active_entries_concat:
  "active_entries (concat xss) = concat (map active_entries xss)"
proof (induction xss)
  case Nil
  show ?case by (simp add: active_entries_def)
next
  case (Cons xs xss)
  then show ?case by (simp add: active_entries_append)
qed

lemma set_active_entries:
  "set (active_entries xs) = entry_of ` {a \<in> set xs. account_Status a = ''ACTIVE''}"
  by (auto simp: active_entries_def entry_of_def)

lemma ids_active_entries:
  "map entry_Id (active_entries xs) =
   map account_Id (filter (\<lambda>a. account_Status a = ''ACTIVE'') xs)"
  by (simp add: active_entries_def comp_def)

lemma distinct_ids_active:
  "distinct (map account_Id xs) \<Longrightarrow> distinct (map entry_Id (active_entries xs))"
  by (simp add: ids_active_entries distinct_map_filter)

lemma inactive_not_collected:
  assumes "distinct (map account_Id xs)" "a \<in> set xs" "account_Status a \<noteq> ''ACTIVE''"
  shows "account_Id a \<notin> set (map entry_Id (active_entries xs))"
proof
  assume "account_Id a \<in> set (map entry_Id (active_entries xs))"
  then obtain b where b: "b \<in> set xs" "account_Status b = ''ACTIVE''" "account_Id b = account_Id a"
    by (auto simp: ids_active_entries)
  from assms(1) have "inj_on account_Id (set xs)" by (simp add: distinct_map)
  with b assms(2) have "b = a" by (auto dest: inj_onD)
  with b assms(3) show False by simp
qed

lemma height_child: "k \<in> set kids \<Longrightarrow> height k \<le> foldr max (map height kids) 0"
  by (induction kids) auto

text \<open>The loop over the children, when every recursive call returns.\<close>

lemma extend_children_all:
  "(\<And>k. k \<in> set kids \<Longrightarrow> \<exists>t. f (ou_id k) = Some (g k, t)) \<Longrightarrow>
   \<exists>t. extend_children f (map ou_id kids) = Some (concat (map g kids), t)"
proof (induction kids)
  case Nil
  then show ?case by simp
next
  case (Cons k kids)
  from Cons.prems [of k] obtain t where t: "f (ou_id k) = Some (g k, t)" by auto
  from Cons.IH Cons.prems obtain ts where
    ts: "extend_children f (map ou_id kids) = Some (concat (map g kids), ts)" by auto
  show ?case using t ts by simp
qed

lemma paginated_expand: "failure p = None \<Longrightarrow> p = Paginated (pages p) None"
  by (cases p) simp

lemma collect_tree:
  "describes d t \<Longrightarrow> height t \<le> depth \<Longrightarrow>
   \<exists>tr. get_accounts_by_ou depth d (ou_id t) = Some (active_entries (owned_accounts t), tr)"
proof (induction t arbitrary: depth)
  case (OU i accts kids)
  from OU.prems(2) obtain n where depth: "depth = Suc n"
    and n: "foldr max (map height kids) 0 \<le> n"
    by (cases depth) auto
  have kids: "\<exists>tr. get_accounts_by_ou n d (ou_id k) = Some (active_entries (owned_accounts k), tr)"
    if "k \<in> set kids" for k
  proof -
    have "height k \<le> n" using height_child [OF that] n by simp
    moreover have "describes d k" using OU.prems(1) that by simp
    ultimately show ?thesis using OU.IH [OF that] by blast
  qed
  from extend_children_all [of kids "get_accounts_by_ou n d"
      "\<lambda>k. active_entries (owned_accounts k)", OF kids]
  obtain t where t: "extend_children (get_accounts_by_ou n d) (map ou_id kids) =
      Some (concat (map (\<lambda>k. active_entries (owned_accounts k)) kids), t)" by blast
  have a: "list_accounts_for_parent d i = Paginated (pages (list_accounts_for_parent d i)) None"
    and c: "list_children d i = Paginated (pages (list_children d i)) None"
    using OU.prems(1) by (simp_all add: paginated_expand)
  have a': "concat (pages (list_accounts_for_parent d i)) = accts"
    and c': "concat (pages (list_children d i)) = map ou_id kids"
    using OU.prems(1) by simp_all
  have "get_accounts_by_ou (Suc n) d i =
      Some (active_entries accts @ concat (map (\<lambda>k. active_entries (owned_accounts k)) kids),
            [ListAccountsForParent i, ListChildren i] @ t @ [])"
    apply (simp only: get_accounts_by_ou.simps)
    apply (subst a, simp only: paginated.case Let_def option.case a')
    apply (subst c, simp only: paginated.case c' t option.case prod.case)
    done
  then show ?case
    by (simp add: depth active_entries_append active_entries_concat comp_def)
qed

text \<open>
  C1. When the directory serves a finite OU tree with every listing succeeding, and the
  recursion depth available covers the levels of the tree, \<open>get_accounts_by_ou\<close> at
  the tree's OU returns, and what it returns is the list of the accounts owned by that OU
  and by all of its descendants, restricted to status ACTIVE, own accounts first: as a
  set, exactly the ACTIVE accounts owned in the subtree. Where account identifiers are
  unique in the subtree, no identifier is returned twice and the identifier of an account
  that is not ACTIVE is not returned.
\<close>

theorem get_accounts_by_ou_collects:
  assumes "describes d t" and "height t \<le> depth"
  shows "\<exists>accounts tr.
     get_accounts_by_ou depth d (ou_id t) = Some (accounts, tr) \<and>
     accounts = active_entries (owned_accounts t) \<and>
     set accounts = entry_of ` {a \<in> set (owned_accounts t). account_Status a = ''ACTIVE''} \<and>
     (distinct (map account_Id (owned_accounts t)) \<longrightarrow>
        distinct (map entry_Id accounts) \<and>
        (\<forall>a \<in> set (owned_accounts t).
           account_Status a \<noteq> ''ACTIVE'' \<longrightarrow> account_Id a \<notin> set (map entry_Id accounts)))"
proof -
  from collect_tree [OF assms] obtain tr where
    "get_accounts_by_ou depth d (ou_id t) = Some (active_entries (owned_accounts t), tr)" ..
  then show ?thesis
    using set_active_entries [of "owned_accounts t"] distinct_ids_active [of "owned_accounts t"]
      inactive_not_collected [of "owned_accounts t"]
    by blast
qed

theorem get_accounts_by_ou_collects_witness:
  "describes nested_directory nested_tree \<and> height nested_tree \<le> 3 \<and>
   distinct (map account_Id (owned_accounts nested_tree)) \<and>
   (\<exists>tr. get_accounts_by_ou 3 nested_directory ''ou-a'' =
      Some ([\<lparr>entry_Id = ''111'', entry_Name = ''a1''\<rparr>,
             \<lparr>entry_Id = ''221'', entry_Name = ''b1''\<rparr>,
             \<lparr>entry_Id = ''331'', entry_Name = ''c1''\<rparr>], tr))"
proof -
  have d: "describes nested_directory nested_tree"
    by (simp add: nested_directory_def nested_tree_def)
  have h: "height nested_tree \<le> 3"
    by (simp add: nested_tree_def)
  have o: "owned_accounts nested_tree =
      [acct ''111'' ''a1'' ''ACTIVE'', acct ''112'' ''a2'' ''SUSPENDED'',
       acct ''221'' ''b1'' ''ACTIVE'', acct ''331'' ''c1'' ''ACTIVE'']"
    by (simp add: nested_tree_def)
  have u: "distinct (map account_Id (owned_accounts nested_tree))"
    by (simp add: o acct_def)
  have i: "ou_id nested_tree = ''ou-a''" by (simp add: nested_tree_def)
  have e: "active_entries (owned_accounts nested_tree) =
      [\<lparr>entry_Id = ''111'', entry_Name = ''a1''\<rparr>,
       \<lparr>entry_Id = ''221'', entry_Name = ''b1''\<rparr>,
       \<lparr>entry_Id = ''331'', entry_Name = ''c1''\<rparr>]"
    by (simp add: o acct_def active_entries_def)
  from get_accounts_by_ou_collects [OF d h] obtain tr where
    r: "get_accounts_by_ou 3 nested_directory ''ou-a'' =
        Some (active_entries (owned_accounts nested_tree), tr)"
    unfolding i by blast
  show ?thesis using d h u r by (simp add: e)
qed

text \<open>
  C5, as stated: a failure of the direct-account listing is treated as "zero direct
  accounts for this OU" and the traversal does not abort. It is false. In
  \<open>faulty_directory\<close> the account listing of \<open>ou-a\<close> raises after its first page:
  the call returns the account of that page and never visits \<open>ou-b\<close>, whereas for
  \<open>ou-a\<close> with zero direct accounts it returns the account of \<open>ou-b\<close>.
\<close>

theorem account_listing_failure_counterexample:
  "list_accounts_for_parent (faulty_directory (Some (ClientError ''AccessDenied'')) None) ''ou-a'' =
     Paginated [[acct ''111'' ''a1'' ''ACTIVE'']] (Some (ClientError ''AccessDenied'')) \<and>
   get_accounts_by_ou 2 (faulty_directory (Some (ClientError ''AccessDenied'')) None) ''ou-a'' =
     Some ([\<lparr>entry_Id = ''111'', entry_Name = ''a1''\<rparr>],
           [ListAccountsForParent ''ou-a'',
            Print ''Error getting accounts for OU ou-a: AccessDenied'']) \<and>
   get_accounts_by_ou 2
     (zero_direct_accounts (faulty_directory (Some (ClientError ''AccessDenied'')) None) ''ou-a'')
     ''ou-a'' =
     Some ([\<lparr>entry_Id = ''221'', entry_Name = ''b1''\<rparr>],
           [ListAccountsForParent ''ou-a'', ListChildren ''ou-a'',
            ListAccountsForParent ''ou-b'', ListChildren ''ou-b''])"
  by (simp add: faulty_directory_def zero_direct_accounts_def acct_def active_entries_def
      eval_nat_numeral)

text \<open>
  C5, amended. When the direct-account listing of an OU raises, the call does not raise:
  it returns at once the ACTIVE accounts of the pages delivered before the failure
  (possibly none), after logging the error. The children of the OU are not listed, so
  nothing below it is collected.
\<close>

theorem account_listing_failure_returns_collected:
  assumes "list_accounts_for_parent d ou = Paginated ps (Some e)"
  shows "get_accounts_by_ou (Suc depth) d ou =
     Some (active_entries (concat ps),
           [ListAccountsForParent ou,
            Print (''Error getting accounts for OU '' @ ou @ '': '' @ str e)])"
  using assms by simp

theorem account_listing_failure_returns_collected_witness:
  "list_accounts_for_parent (faulty_directory (Some (ClientError ''Throttled'')) None) ''ou-a'' =
     Paginated [[acct ''111'' ''a1'' ''ACTIVE'']] (Some (ClientError ''Throttled'')) \<and>
   get_accounts_by_ou (Suc 0) (faulty_directory (Some (ClientError ''Throttled'')) None) ''ou-a'' =
     Some ([\<lparr>entry_Id = ''111'', entry_Name = ''a1''\<rparr>],
           [ListAccountsForParent ''ou-a'',
            Print ''Error getting accounts for OU ou-a: Throttled''])"
proof -
  have l: "list_accounts_for_parent (faulty_directory (Some (ClientError ''Throttled'')) None)
      ''ou-a'' = Paginated [[acct ''111'' ''a1'' ''ACTIVE'']] (Some (ClientError ''Throttled''))"
    by (simp add: faulty_directory_def)
  show ?thesis
    using account_listing_failure_returns_collected [OF l, of 0] l
    by (simp add: acct_def active_entries_def)
qed

text \<open>
  C6. When the child listing of an OU raises (its account listing having succeeded), the
  call does not raise: the children of the pages not delivered are not visited, and the
  call returns the OU's direct ACTIVE accounts, followed by what the children delivered
  before the failure returned, after logging the error.
\<close>

theorem child_listing_failure_keeps_accounts:
  assumes "list_accounts_for_parent d ou = Paginated aps None"
    and "list_children d ou = Paginated cps (Some e)"
    and "extend_children (get_accounts_by_ou depth d) (concat cps) = Some (child_accounts, t)"
  shows "get_accounts_by_ou (Suc depth) d ou =
     Some (active_entries (concat aps) @ child_accounts,
           [ListAccountsForParent ou, ListChildren ou] @ t @
           [Print (''Error getting child OUs for '' @ ou @ '': '' @ str e)])"
  using assms by simp

theorem child_listing_failure_keeps_accounts_witness:
  "list_accounts_for_parent (faulty_directory None (Some (ClientError ''Throttled''))) ''ou-a'' =
     Paginated [[acct ''111'' ''a1'' ''ACTIVE'']] None \<and>
   list_children (faulty_directory None (Some (ClientError ''Throttled''))) ''ou-a'' =
     Paginated [[''ou-b'']] (Some (ClientError ''Throttled'')) \<and>
   get_accounts_by_ou (Suc 1) (faulty_directory None (Some (ClientError ''Throttled''))) ''ou-a'' =
     Some ([\<lparr>entry_Id = ''111'', entry_Name = ''a1''\<rparr>,
            \<lparr>entry_Id = ''221'', entry_Name = ''b1''\<rparr>],
           [ListAccountsForParent ''ou-a'', ListChildren ''ou-a'',
            ListAccountsForParent ''ou-b'', ListChildren ''ou-b'',
            Print ''Error getting child OUs for ou-a: Throttled''])"
proof -
  let ?d = "faulty_directory None (Some (ClientError ''Throttled''))"
  have a: "list_accounts_for_parent ?d ''ou-a'' = Paginated [[acct ''111'' ''a1'' ''ACTIVE'']] None"
    by (simp add: faulty_directory_def)
  have c: "list_children ?d ''ou-a'' = Paginated [[''ou-b'']] (Some (ClientError ''Throttled''))"
    by (simp add: faulty_directory_def)
  have x: "extend_children (get_accounts_by_ou 1 ?d) (concat [[''ou-b'']]) =
      Some ([\<lparr>entry_Id = ''221'', entry_Name = ''b1''\<rparr>],
            [ListAccountsForParent ''ou-b'', ListChildren ''ou-b''])"
    by (simp add: faulty_directory_def acct_def active_entries_def)
  show ?thesis
    using child_listing_failure_keeps_accounts [OF a c x] a c
    by (simp add: acct_def active_entries_def)
qed

section \<open>The category reconciler: results\<close>

lemma list_ex_filter: "list_ex P xs \<Longrightarrow> filter P xs \<noteq> []"
  by (induction xs) auto

lemma find_None_list_ex: "find P xs = None \<longleftrightarrow> \<not> list_ex P xs"
  by (induction xs) auto

lemma find_Some_filter: "find P xs = Some x \<Longrightarrow> \<exists>ys. filter P xs = x # ys"
  by (induction xs) (auto split: if_splits)

lemma find_Some_list_ex: "find P xs = Some x \<Longrightarrow> list_ex P xs"
  by (induction xs) (auto split: if_splits)

lemma create_or_update_never_raises:
  "fst (create_or_update_cost_category ce n ids s) = None"
  by (auto simp: create_or_update_cost_category_def Let_def dest: list_ex_filter
      split: sum.splits list.splits)

lemma create_or_update_returns:
  "create_or_update_cost_category ce n ids s = (x, s', t) \<Longrightarrow> x = None"
  using create_or_update_never_raises [of ce n ids s] by simp

lemma create_or_update_found:
  assumes "list_cost_category_definitions ce s = Inr existing"
    and "find (\<lambda>cat. ref_Name cat = ''OU-'' @ n) existing = Some cat"
  shows "create_or_update_cost_category ce n ids s =
     (case update_cost_category_definition ce (CostCategoryArn cat)
             ''CostCategoryExpression.v1'' (build_rules n ids) s of
        Inl e \<Rightarrow>
          (None, s,
           [ListCostCategoryDefinitions,
            UpdateCostCategoryDefinition (CostCategoryArn cat) ''CostCategoryExpression.v1''
              (build_rules n ids),
            Print (''Error managing cost category '' @ ''OU-'' @ n @ '': '' @ str e)])
      | Inr s' \<Rightarrow>
          (None, s',
           [ListCostCategoryDefinitions,
            UpdateCostCategoryDefinition (CostCategoryArn cat) ''CostCategoryExpression.v1''
              (build_rules n ids),
            Print (''Updated cost category: '' @ ''OU-'' @ n)]))"
proof -
  from find_Some_filter [OF assms(2)] obtain ys where
    f: "filter (\<lambda>cat. ref_Name cat = ''OU-'' @ n) existing = cat # ys" ..
  have e: "list_ex (\<lambda>cat. ref_Name cat = ''OU-'' @ n) existing"
    using find_Some_list_ex [OF assms(2)] .
  show ?thesis
    using assms(1) f e
    by (simp add: create_or_update_cost_category_def Let_def split: sum.splits)
qed

lemma create_or_update_not_found:
  assumes "list_cost_category_definitions ce s = Inr existing"
    and "find (\<lambda>cat. ref_Name cat = ''OU-'' @ n) existing = None"
  shows "create_or_update_cost_category ce n ids s =
     (case create_cost_category_definition ce (''OU-'' @ n)
             ''CostCategoryExpression.v1'' (build_rules n ids) ''Other'' s of
        Inl e \<Rightarrow>
          (None, s,
           [ListCostCategoryDefinitions,
            CreateCostCategoryDefinition (''OU-'' @ n) ''CostCategoryExpression.v1''
              (build_rules n ids) ''Other'',
            Print (''Error managing cost category '' @ ''OU-'' @ n @ '': '' @ str e)])
      | Inr s' \<Rightarrow>
          (None, s',
           [ListCostCategoryDefinitions,
            CreateCostCategoryDefinition (''OU-'' @ n) ''CostCategoryExpression.v1''
              (build_rules n ids) ''Other'',
            Print (''Created cost category: '' @ ''OU-'' @ n)]))"
proof -
  have e: "\<not> list_ex (\<lambda>cat. ref_Name cat = ''OU-'' @ n) existing"
    using assms(2) by (simp add: find_None_list_ex)
  show ?thesis
    using assms(1) e
    by (simp add: create_or_update_cost_category_def Let_def split: sum.splits)
qed

lemma create_or_update_list_fails:
  assumes "list_cost_category_definitions ce s = Inl e"
  shows "create_or_update_cost_category ce n ids s =
     (None, s, [ListCostCategoryDefinitions,
                Print (''Error managing cost category '' @ ''OU-'' @ n @ '': '' @ str e)])"
  using assms by (simp add: create_or_update_cost_category_def Let_def)



lemma find_Some_set: "find P xs = Some x \<Longrightarrow> x \<in> set xs \<and> P x"
  by (induction xs) (auto split: if_splits)

lemma find_None_set: "find P xs = None \<longleftrightarrow> (\<forall>x \<in> set xs. \<not> P x)"
  by (induction xs) auto

lemma create_or_update_store:
  "\<exists>t. create_or_update_cost_category ce n ids s =
     (None, (case store_call_result ce n ids s of Inl e \<Rightarrow> s | Inr s' \<Rightarrow> s'), t) \<and>
     ListCostCategoryDefinitions \<in> set t"
proof (cases "list_cost_category_definitions ce s")
  case (Inl e)
  then show ?thesis
    by (simp add: create_or_update_list_fails store_call_result_def)
next
  case (Inr existing)
  show ?thesis
  proof (cases "find (\<lambda>cat. ref_Name cat = ''OU-'' @ n) existing")
    case None
    show ?thesis
      using create_or_update_not_found [OF Inr None, of ids] Inr None
      by (auto simp: store_call_result_def split: sum.splits)
  next
    case (Some cat)
    show ?thesis
      using create_or_update_found [OF Inr Some, of ids] Inr Some
      by (auto simp: store_call_result_def split: sum.splits)
  qed
qed

text \<open>
  C2. Where the listing of the existing category definitions succeeds, the reconciler
  raises nothing and: if some listed definition has the name \<open>"OU-" + n\<close>, it issues
  exactly one update call, with the handle of such a definition (the first listed) and
  the one-rule rule set built from \<open>n\<close> and the account ids, and no create call;
  otherwise it issues exactly one create call, with the name \<open>"OU-" + n\<close>, that rule
  set and the default value \<open>"Other"\<close>, and no update call. The call that is logged is
  the call that is made: the store returned is the one the client's update or create
  gives for those arguments, and the store is unchanged when that call fails.
\<close>

theorem create_or_update_cost_category_decision:
  assumes "list_cost_category_definitions ce s = Inr existing"
  shows "fst (create_or_update_cost_category ce n ids s) = None \<and>
    (if \<exists>cat \<in> set existing. ref_Name cat = ''OU-'' @ n
     then \<exists>cat \<in> set existing. ref_Name cat = ''OU-'' @ n \<and>
        find (\<lambda>cat. ref_Name cat = ''OU-'' @ n) existing = Some cat \<and>
        create_or_update_cost_category ce n ids s =
          (case update_cost_category_definition ce (CostCategoryArn cat)
                  ''CostCategoryExpression.v1''
                  [\<lparr>Value = n,
                    Dimensions = \<lparr>Key = ''LINKED_ACCOUNT'', Values = ids,
                                  MatchOptions = [''EQUALS'']\<rparr>\<rparr>] s of
             Inl e \<Rightarrow>
               (None, s,
                [ListCostCategoryDefinitions,
                 UpdateCostCategoryDefinition (CostCategoryArn cat) ''CostCategoryExpression.v1''
                   [\<lparr>Value = n,
                     Dimensions = \<lparr>Key = ''LINKED_ACCOUNT'', Values = ids,
                                   MatchOptions = [''EQUALS'']\<rparr>\<rparr>],
                 Print (''Error managing cost category '' @ ''OU-'' @ n @ '': '' @ str e)])
           | Inr s' \<Rightarrow>
               (None, s',
                [ListCostCategoryDefinitions,
                 UpdateCostCategoryDefinition (CostCategoryArn cat) ''CostCategoryExpression.v1''
                   [\<lparr>Value = n,
                     Dimensions = \<lparr>Key = ''LINKED_ACCOUNT'', Values = ids,
                                   MatchOptions = [''EQUALS'']\<rparr>\<rparr>],
                 Print (''Updated cost category: '' @ ''OU-'' @ n)])) \<and>
        filter is_update (snd (snd (create_or_update_cost_category ce n ids s))) =
          [UpdateCostCategoryDefinition (CostCategoryArn cat) ''CostCategoryExpression.v1''
             [\<lparr>Value = n,
               Dimensions = \<lparr>Key = ''LINKED_ACCOUNT'', Values = ids,
                             MatchOptions = [''EQUALS'']\<rparr>\<rparr>]] \<and>
        filter is_create (snd (snd (create_or_update_cost_category ce n ids s))) = []
     else
        create_or_update_cost_category ce n ids s =
          (case create_cost_category_definition ce (''OU-'' @ n)
                  ''CostCategoryExpression.v1''
                  [\<lparr>Value = n,
                    Dimensions = \<lparr>Key = ''LINKED_ACCOUNT'', Values = ids,
                                  MatchOptions = [''EQUALS'']\<rparr>\<rparr>] ''Other'' s of
             Inl e \<Rightarrow>
               (None, s,
                [ListCostCategoryDefinitions,
                 CreateCostCategoryDefinition (''OU-'' @ n) ''CostCategoryExpression.v1''
                   [\<lparr>Value = n,
                     Dimensions = \<lparr>Key = ''LINKED_ACCOUNT'', Values = ids,
                                   MatchOptions = [''EQUALS'']\<rparr>\<rparr>] ''Other'',
                 Print (''Error managing cost category '' @ ''OU-'' @ n @ '': '' @ str e)])
           | Inr s' \<Rightarrow>
               (None, s',
                [ListCostCategoryDefinitions,
                 CreateCostCategoryDefinition (''OU-'' @ n) ''CostCategoryExpression.v1''
                   [\<lparr>Value = n,
                     Dimensions = \<lparr>Key = ''LINKED_ACCOUNT'', Values = ids,
                                   MatchOptions = [''EQUALS'']\<rparr>\<rparr>] ''Other'',
                 Print (''Created cost category: '' @ ''OU-'' @ n)])) \<and>
        filter is_create (snd (snd (create_or_update_cost_category ce n ids s))) =
          [CreateCostCategoryDefinition (''OU-'' @ n) ''CostCategoryExpression.v1''
             [\<lparr>Value = n,
               Dimensions = \<lparr>Key = ''LINKED_ACCOUNT'', Values = ids,
                             MatchOptions = [''EQUALS'']\<rparr>\<rparr>] ''Other''] \<and>
        filter is_update (snd (snd (create_or_update_cost_category ce n ids s))) = [])"
proof (cases "find (\<lambda>cat. ref_Name cat = ''OU-'' @ n) existing")
  case None
  then have no: "\<not> (\<exists>cat \<in> set existing. ref_Name cat = ''OU-'' @ n)"
    by (simp add: find_None_set)
  have raises: "fst (create_or_update_cost_category ce n ids s) = None"
    by (rule create_or_update_never_raises)
  note run = create_or_update_not_found [OF assms None, of ids, unfolded build_rules_def]
  have tr: "filter is_create (snd (snd (create_or_update_cost_category ce n ids s))) =
          [CreateCostCategoryDefinition (''OU-'' @ n) ''CostCategoryExpression.v1''
             [\<lparr>Value = n,
               Dimensions = \<lparr>Key = ''LINKED_ACCOUNT'', Values = ids,
                             MatchOptions = [''EQUALS'']\<rparr>\<rparr>] ''Other''] \<and>
        filter is_update (snd (snd (create_or_update_cost_category ce n ids s))) = []"
    unfolding run by (simp split: sum.splits)
  from no raises run tr show ?thesis by (simp only: if_False simp_thms)
next
  case (Some cat)
  from find_Some_set [OF Some] have yes: "cat \<in> set existing" "ref_Name cat = ''OU-'' @ n"
    by simp_all
  then have ex: "\<exists>cat \<in> set existing. ref_Name cat = ''OU-'' @ n" by blast
  have raises: "fst (create_or_update_cost_category ce n ids s) = None"
    by (rule create_or_update_never_raises)
  note run = create_or_update_found [OF assms Some, of ids, unfolded build_rules_def]
  have tr: "filter is_update (snd (snd (create_or_update_cost_category ce n ids s))) =
          [UpdateCostCategoryDefinition (CostCategoryArn cat) ''CostCategoryExpression.v1''
             [\<lparr>Value = n,
               Dimensions = \<lparr>Key = ''LINKED_ACCOUNT'', Values = ids,
                             MatchOptions = [''EQUALS'']\<rparr>\<rparr>]] \<and>
        filter is_create (snd (snd (create_or_update_cost_category ce n ids s))) = []"
    unfolding run by (simp split: sum.splits)
  have "\<exists>cat \<in> set existing. ref_Name cat = ''OU-'' @ n \<and>
        find (\<lambda>cat. ref_Name cat = ''OU-'' @ n) existing = Some cat \<and>
        create_or_update_cost_category ce n ids s =
          (case update_cost_category_definition ce (CostCategoryArn cat)
                  ''CostCategoryExpression.v1''
                  [\<lparr>Value = n,
                    Dimensions = \<lparr>Key = ''LINKED_ACCOUNT'', Values = ids,
                                  MatchOptions = [''EQUALS'']\<rparr>\<rparr>] s of
             Inl e \<Rightarrow>
               (None, s,
                [ListCostCategoryDefinitions,
                 UpdateCostCategoryDefinition (CostCategoryArn cat) ''CostCategoryExpression.v1''
                   [\<lparr>Value = n,
                     Dimensions = \<lparr>Key = ''LINKED_ACCOUNT'', Values = ids,
                                   MatchOptions = [''EQUALS'']\<rparr>\<rparr>],
                 Print (''Error managing cost category '' @ ''OU-'' @ n @ '': '' @ str e)])
           | Inr s' \<Rightarrow>
               (None, s',
                [ListCostCategoryDefinitions,
                 UpdateCostCategoryDefinition (CostCategoryArn cat) ''CostCategoryExpression.v1''
                   [\<lparr>Value = n,
                     Dimensions = \<lparr>Key = ''LINKED_ACCOUNT'', Values = ids,
                                   MatchOptions = [''EQUALS'']\<rparr>\<rparr>],
                 Print (''Updated cost category: '' @ ''OU-'' @ n)])) \<and>
        filter is_update (snd (snd (create_or_update_cost_category ce n ids s))) =
          [UpdateCostCategoryDefinition (CostCategoryArn cat) ''CostCategoryExpression.v1''
             [\<lparr>Value = n,
               Dimensions = \<lparr>Key = ''LINKED_ACCOUNT'', Values = ids,
                             MatchOptions = [''EQUALS'']\<rparr>\<rparr>]] \<and>
        filter is_create (snd (snd (create_or_update_cost_category ce n ids s))) = []"
    using yes Some run tr by (intro bexI [of _ cat]) (simp_all only: simp_thms)
  with ex raises show ?thesis by (simp only: if_True simp_thms)
qed

theorem create_or_update_cost_category_decision_witness:
  "list_cost_category_definitions store_client finance_store =
     Inr [\<lparr>ref_Name = ''OU-Finance'', CostCategoryArn = ''arn:finance''\<rparr>] \<and>
   create_or_update_cost_category store_client ''Finance'' [''111''] finance_store =
     (None,
      [\<lparr>def_Name = ''OU-Finance'', def_Arn = ''arn:finance'',
        def_RuleVersion = ''CostCategoryExpression.v1'',
        def_Rules =
          [\<lparr>Value = ''Finance'',
            Dimensions = \<lparr>Key = ''LINKED_ACCOUNT'', Values = [''111''],
                          MatchOptions = [''EQUALS'']\<rparr>\<rparr>],
        def_DefaultValue = ''Other''\<rparr>],
      [ListCostCategoryDefinitions,
       UpdateCostCategoryDefinition ''arn:finance'' ''CostCategoryExpression.v1''
         [\<lparr>Value = ''Finance'',
           Dimensions = \<lparr>Key = ''LINKED_ACCOUNT'', Values = [''111''],
                         MatchOptions = [''EQUALS'']\<rparr>\<rparr>],
       Print ''Updated cost category: OU-Finance'']) \<and>
   filter is_update
     (snd (snd (create_or_update_cost_category store_client ''Finance'' [''111''] finance_store))) =
     [UpdateCostCategoryDefinition ''arn:finance'' ''CostCategoryExpression.v1''
        [\<lparr>Value = ''Finance'',
          Dimensions = \<lparr>Key = ''LINKED_ACCOUNT'', Values = [''111''],
                        MatchOptions = [''EQUALS'']\<rparr>\<rparr>]] \<and>
   filter is_create
     (snd (snd (create_or_update_cost_category store_client ''Finance'' [''111''] finance_store))) = [] \<and>
   create_or_update_cost_category store_client ''Sales'' [''222''] finance_store =
     (None,
      finance_store @
      [\<lparr>def_Name = ''OU-Sales'', def_Arn = ''aaaaaaaaaaaa'',
        def_RuleVersion = ''CostCategoryExpression.v1'',
        def_Rules =
          [\<lparr>Value = ''Sales'',
            Dimensions = \<lparr>Key = ''LINKED_ACCOUNT'', Values = [''222''],
                          MatchOptions = [''EQUALS'']\<rparr>\<rparr>],
        def_DefaultValue = ''Other''\<rparr>],
      [ListCostCategoryDefinitions,
       CreateCostCategoryDefinition ''OU-Sales'' ''CostCategoryExpression.v1''
         [\<lparr>Value = ''Sales'',
           Dimensions = \<lparr>Key = ''LINKED_ACCOUNT'', Values = [''222''],
                         MatchOptions = [''EQUALS'']\<rparr>\<rparr>] ''Other'',
       Print ''Created cost category: OU-Sales'']) \<and>
   filter is_create
     (snd (snd (create_or_update_cost_category store_client ''Sales'' [''222''] finance_store))) =
     [CreateCostCategoryDefinition ''OU-Sales'' ''CostCategoryExpression.v1''
        [\<lparr>Value = ''Sales'',
          Dimensions = \<lparr>Key = ''LINKED_ACCOUNT'', Values = [''222''],
                        MatchOptions = [''EQUALS'']\<rparr>\<rparr>] ''Other''] \<and>
   filter is_update
     (snd (snd (create_or_update_cost_category store_client ''Sales'' [''222''] finance_store))) = []"
proof -
  have l: "list_cost_category_definitions store_client finance_store =
     Inr [\<lparr>ref_Name = ''OU-Finance'', CostCategoryArn = ''arn:finance''\<rparr>]"
    by (simp add: store_client_def store_list_def finance_store_def)
  have u: "update_cost_category_definition store_client ''arn:finance''
      ''CostCategoryExpression.v1''
      [\<lparr>Value = ''Finance'',
        Dimensions = \<lparr>Key = ''LINKED_ACCOUNT'', Values = [''111''],
                      MatchOptions = [''EQUALS'']\<rparr>\<rparr>] finance_store =
     Inr [\<lparr>def_Name = ''OU-Finance'', def_Arn = ''arn:finance'',
        def_RuleVersion = ''CostCategoryExpression.v1'',
        def_Rules =
          [\<lparr>Value = ''Finance'',
            Dimensions = \<lparr>Key = ''LINKED_ACCOUNT'', Values = [''111''],
                          MatchOptions = [''EQUALS'']\<rparr>\<rparr>],
        def_DefaultValue = ''Other''\<rparr>]"
    by (simp add: store_client_def store_update_def finance_store_def)
  have c: "create_cost_category_definition store_client ''OU-Sales''
      ''CostCategoryExpression.v1''
      [\<lparr>Value = ''Sales'',
        Dimensions = \<lparr>Key = ''LINKED_ACCOUNT'', Values = [''222''],
                      MatchOptions = [''EQUALS'']\<rparr>\<rparr>] ''Other'' finance_store =
     Inr (finance_store @
      [\<lparr>def_Name = ''OU-Sales'', def_Arn = ''aaaaaaaaaaaa'',
        def_RuleVersion = ''CostCategoryExpression.v1'',
        def_Rules =
          [\<lparr>Value = ''Sales'',
            Dimensions = \<lparr>Key = ''LINKED_ACCOUNT'', Values = [''222''],
                          MatchOptions = [''EQUALS'']\<rparr>\<rparr>],
        def_DefaultValue = ''Other''\<rparr>])"
    by (simp add: store_client_def store_create_def fresh_arn_def finance_store_def)
  show ?thesis
    using create_or_update_cost_category_decision [OF l, of "''Finance''" "[''111'']"]
      create_or_update_cost_category_decision [OF l, of "''Sales''" "[''222'']"] l
    by (simp add: u c)
qed

section \<open>The orchestrator: results\<close>

lemma process_ous_append:
  "process_ous depth d ce (xs @ ys) s =
     (case process_ous depth d ce xs s of
        (Some x, s', t) \<Rightarrow> (Some x, s', t)
      | (None, s', t) \<Rightarrow>
          (case process_ous depth d ce ys s' of (x, s'', ts) \<Rightarrow> (x, s'', t @ ts)))"
proof (induction xs arbitrary: s)
  case Nil
  show ?case by (simp split: prod.splits)
next
  case (Cons ou xs)
  show ?case
    by (simp add: Cons.IH split: prod.splits option.splits)
qed

lemma process_ou_exception:
  "fst (process_ou depth d ce ou s) =
     (case describe_organizational_unit d ou of
        Inl e \<Rightarrow> None
      | Inr n \<Rightarrow> if n \<noteq> [] \<and> get_accounts_by_ou depth d ou = None
                 then Some RecursionError else None)"
  by (auto simp: process_ou_def get_ou_details_def Let_def
      split: sum.splits option.splits prod.splits dest: create_or_update_returns)

lemma process_ous_returns:
  "\<forall>ou \<in> set ous. get_accounts_by_ou depth d ou \<noteq> None \<Longrightarrow>
   fst (process_ous depth d ce ous s) = None"
proof (induction ous arbitrary: s)
  case Nil
  show ?case by simp
next
  case (Cons ou ous)
  have "fst (process_ou depth d ce ou s) = None"
    using Cons.prems by (auto simp: process_ou_exception split: sum.splits)
  then obtain s' t where p: "process_ou depth d ce ou s = (None, s', t)"
    by (cases "process_ou depth d ce ou s") auto
  from Cons.IH [of s'] Cons.prems have "fst (process_ous depth d ce ous s') = None" by simp
  then show ?case using p by (cases "process_ous depth d ce ous s'") auto
qed

lemma process_ous_raises:
  assumes "ou \<in> set ous" "describe_organizational_unit d ou = Inr n" "n \<noteq> []"
    "get_accounts_by_ou depth d ou = None"
  shows "fst (process_ous depth d ce ous s) = Some RecursionError"
  using assms(1)
proof (induction ous arbitrary: s)
  case Nil
  then show ?case by simp
next
  case (Cons o' ous)
  have x: "fst (process_ou depth d ce o' s) = None \<or> fst (process_ou depth d ce o' s) = Some RecursionError"
    by (simp add: process_ou_exception split: sum.splits)
  show ?case
  proof (cases "fst (process_ou depth d ce o' s)")
    case (Some x')
    with x have "fst (process_ou depth d ce o' s) = Some RecursionError" by simp
    then show ?thesis by (cases "process_ou depth d ce o' s") (auto split: prod.splits)
  next
    case None
    then obtain s' t where p: "process_ou depth d ce o' s = (None, s', t)"
      by (cases "process_ou depth d ce o' s") auto
    have "o' \<noteq> ou"
    proof
      assume "o' = ou"
      with assms(2-4) have "fst (process_ou depth d ce o' s) = Some RecursionError"
        by (simp add: process_ou_exception)
      with None show False by simp
    qed
    with Cons.prems have "ou \<in> set ous" by simp
    from Cons.IH [OF this, of s'] show ?thesis
      using p by (cases "process_ous depth d ce ous s'") auto
  qed
qed

lemma extend_children_events:
  assumes "\<And>c r t. c \<in> set cs \<Longrightarrow> f c = Some (r, t) \<Longrightarrow> filter is_store_call t = []"
    and "extend_children f cs = Some (r, t)"
  shows "filter is_store_call t = []"
  using assms
proof (induction cs arbitrary: r t)
  case Nil
  then show ?case by simp
next
  case (Cons c cs)
  from Cons.prems(2) obtain r1 t1 r2 t2 where
    c: "f c = Some (r1, t1)" and cs: "extend_children f cs = Some (r2, t2)" and t: "t = t1 @ t2"
    by (auto split: option.splits)
  have "filter is_store_call t1 = []" using Cons.prems(1) [of c r1 t1] c by simp
  moreover have "filter is_store_call t2 = []"
  proof (rule Cons.IH [OF _ cs])
    fix c' r' t' assume "c' \<in> set cs" "f c' = Some (r', t')"
    then show "filter is_store_call t' = []" using Cons.prems(1) [of c' r' t'] by simp
  qed
  ultimately show ?case using t by simp
qed

lemma collector_events:
  "get_accounts_by_ou depth d ou = Some (r, t) \<Longrightarrow> filter is_store_call t = []"
proof (induction depth arbitrary: ou r t)
  case 0
  then show ?case by simp
next
  case (Suc depth)
  obtain aps af where a: "list_accounts_for_parent d ou = Paginated aps af"
    by (cases "list_accounts_for_parent d ou")
  obtain cps cf where c: "list_children d ou = Paginated cps cf"
    by (cases "list_children d ou")
  show ?case
  proof (cases af)
    case (Some e)
    with Suc.prems a show ?thesis by auto
  next
    case None
    with Suc.prems a c obtain r' t' where
      x: "extend_children (get_accounts_by_ou depth d) (concat cps) = Some (r', t')"
      and t: "t = [ListAccountsForParent ou, ListChildren ou] @ t' @
        (case cf of Some e \<Rightarrow> [Print (''Error getting child OUs for '' @ ou @ '': '' @ str e)]
         | None \<Rightarrow> [])"
      by (auto simp: Let_def split: option.splits)
    have "filter is_store_call t' = []"
      using extend_children_events [OF _ x] Suc.IH by blast
    then show ?thesis using t by (simp split: option.splits)
  qed
qed

lemma process_ou_reconciles:
  assumes "describe_organizational_unit d ou = Inr n" "n \<noteq> []"
    "get_accounts_by_ou depth d ou = Some (a, c)" "a \<noteq> []"
    "create_or_update_cost_category ce n (map entry_Id a) s = (x, s', t)"
  shows "process_ou depth d ce ou s = (x, s', [DescribeOrganizationalUnit ou] @ c @ t)"
  using assms by (simp add: process_ou_def get_ou_details_def)

text \<open>
  C7. Let a top-level OU with a display name and a non-empty account list meet a failing
  classification-store call (the listing, the create or the update). Its reconciliation
  raises nothing and leaves the store as it was. Whatever OUs are processed in between
  (themselves without an uncaught exception), a later top-level OU with a display name
  and a non-empty account list is reconciled in its turn: its listing call is issued, and
  when its create or update succeeds the store it returns is the store handed on to the
  rest of the loop.
\<close>

theorem store_failure_does_not_block_next_ou:
  assumes "describe_organizational_unit d ou1 = Inr n1" and "n1 \<noteq> []"
    and "get_accounts_by_ou depth d ou1 = Some (a1, c1)" and "a1 \<noteq> []"
    and "store_call_fails ce n1 (map entry_Id a1) s"
    and "process_ous depth d ce mid s = (None, sm, tm)"
    and "describe_organizational_unit d ou2 = Inr n2" and "n2 \<noteq> []"
    and "get_accounts_by_ou depth d ou2 = Some (a2, c2)" and "a2 \<noteq> []"
  shows "\<exists>t1 s2 t2 x s3 t3.
     create_or_update_cost_category ce n1 (map entry_Id a1) s = (None, s, t1) \<and>
     create_or_update_cost_category ce n2 (map entry_Id a2) sm = (None, s2, t2) \<and>
     ListCostCategoryDefinitions \<in> set t2 \<and>
     s2 = (case store_call_result ce n2 (map entry_Id a2) sm of Inl e \<Rightarrow> sm | Inr s' \<Rightarrow> s') \<and>
     process_ous depth d ce rest s2 = (x, s3, t3) \<and>
     process_ous depth d ce (ou1 # mid @ ou2 # rest) s =
       (x, s3,
        [DescribeOrganizationalUnit ou1] @ c1 @ t1 @ tm @
        [DescribeOrganizationalUnit ou2] @ c2 @ t2 @ t3)"
proof -
  from create_or_update_store [of ce n1 "map entry_Id a1" s] assms(5)
  obtain t1 where t1: "create_or_update_cost_category ce n1 (map entry_Id a1) s = (None, s, t1)"
    by (auto simp: store_call_fails_def split: sum.splits)
  from create_or_update_store [of ce n2 "map entry_Id a2" sm]
  obtain t2 where t2: "create_or_update_cost_category ce n2 (map entry_Id a2) sm =
      (None, (case store_call_result ce n2 (map entry_Id a2) sm of Inl e \<Rightarrow> sm | Inr s' \<Rightarrow> s'), t2)"
    and l: "ListCostCategoryDefinitions \<in> set t2"
    by blast
  define s2 where "s2 = (case store_call_result ce n2 (map entry_Id a2) sm of Inl e \<Rightarrow> sm | Inr s' \<Rightarrow> s')"
  obtain x s3 t3 where r: "process_ous depth d ce rest s2 = (x, s3, t3)"
    by (cases "process_ous depth d ce rest s2") auto
  have p1: "process_ou depth d ce ou1 s = (None, s, [DescribeOrganizationalUnit ou1] @ c1 @ t1)"
    using process_ou_reconciles [OF assms(1-4) t1] .
  have p2: "process_ou depth d ce ou2 sm = (None, s2, [DescribeOrganizationalUnit ou2] @ c2 @ t2)"
    using process_ou_reconciles [OF assms(7-10) t2 [folded s2_def]] .
  have "process_ous depth d ce (ou2 # rest) sm =
      (x, s3, [DescribeOrganizationalUnit ou2] @ c2 @ t2 @ t3)"
    using p2 r by simp
  then have "process_ous depth d ce (mid @ ou2 # rest) s =
      (x, s3, tm @ [DescribeOrganizationalUnit ou2] @ c2 @ t2 @ t3)"
    using assms(6) by (simp add: process_ous_append)
  then have "process_ous depth d ce (ou1 # mid @ ou2 # rest) s =
      (x, s3, [DescribeOrganizationalUnit ou1] @ c1 @ t1 @ tm @
        [DescribeOrganizationalUnit ou2] @ c2 @ t2 @ t3)"
    using p1 by simp
  with t1 t2 l r show ?thesis unfolding s2_def by blast
qed


theorem store_failure_does_not_block_next_ou_witness:
  "store_call_fails (refusing_client ''OU-Finance'') ''Finance'' [''111''] [] \<and>
   process_ous 1 (departments None) (refusing_client ''OU-Finance'') [''ou-z''] [] =
     (None, [], [DescribeOrganizationalUnit ''ou-z'', ListAccountsForParent ''ou-z'',
                 ListChildren ''ou-z'']) \<and>
   fst (snd (process_ous 1 (departments None) (refusing_client ''OU-Finance'')
               (''ou-f'' # [''ou-z''] @ ''ou-e'' # []) [])) =
     [\<lparr>def_Name = ''OU-Engineering'', def_Arn = ''a'',
       def_RuleVersion = ''CostCategoryExpression.v1'',
       def_Rules = build_rules ''Engineering'' [''222''], def_DefaultValue = ''Other''\<rparr>]"
proof -
  let ?d = "departments None" and ?ce = "refusing_client ''OU-Finance''"
  have f: "describe_organizational_unit ?d ''ou-f'' = Inr ''Finance''" "''Finance'' \<noteq> []"
    "get_accounts_by_ou 1 ?d ''ou-f'' =
       Some ([\<lparr>entry_Id = ''111'', entry_Name = ''f1''\<rparr>],
             [ListAccountsForParent ''ou-f'', ListChildren ''ou-f''])"
    "[\<lparr>entry_Id = ''111'', entry_Name = ''f1''\<rparr>] \<noteq> []"
    by (simp_all add: departments_def acct_def active_entries_def)
  have e: "describe_organizational_unit ?d ''ou-e'' = Inr ''Engineering''" "''Engineering'' \<noteq> []"
    "get_accounts_by_ou 1 ?d ''ou-e'' =
       Some ([\<lparr>entry_Id = ''222'', entry_Name = ''e1''\<rparr>],
             [ListAccountsForParent ''ou-e'', ListChildren ''ou-e''])"
    "[\<lparr>entry_Id = ''222'', entry_Name = ''e1''\<rparr>] \<noteq> []"
    by (simp_all add: departments_def acct_def active_entries_def)
  have x: "store_call_fails ?ce ''Finance'' (map entry_Id [\<lparr>entry_Id = ''111'', entry_Name = ''f1''\<rparr>]) []"
    by (simp add: store_call_fails_def store_call_result_def refusing_client_def store_list_def)
  have m: "process_ous 1 ?d ?ce [''ou-z''] [] =
     (None, [], [DescribeOrganizationalUnit ''ou-z'', ListAccountsForParent ''ou-z'',
                 ListChildren ''ou-z''])"
    by (simp add: process_ou_def get_ou_details_def departments_def acct_def active_entries_def)
  have r: "store_call_result ?ce ''Engineering'' [''222''] [] =
     Inr [\<lparr>def_Name = ''OU-Engineering'', def_Arn = ''a'',
       def_RuleVersion = ''CostCategoryExpression.v1'',
       def_Rules = build_rules ''Engineering'' [''222''], def_DefaultValue = ''Other''\<rparr>]"
    by (simp add: store_call_result_def refusing_client_def store_list_def store_create_def
        fresh_arn_def)
  from store_failure_does_not_block_next_ou [OF f x m e, of "[]"]
  show ?thesis using x m by (auto simp: r)
qed

text \<open>
  C4. For a top-level OU whose collected account list is empty, the loop body raises
  nothing, leaves the store unchanged and issues no call to the classification store, in
  every store state; a run over top-level OUs that include it ends with the same
  exception or none, the same store and the same sequence of classification-store calls
  as the run without it.
\<close>

theorem empty_ou_is_skipped:
  assumes "get_accounts_by_ou depth d ou = Some ([], c)"
  shows "(\<exists>t. (\<forall>s. process_ou depth d ce ou s = (None, s, t)) \<and> filter is_store_call t = []) \<and>
     fst (process_ous depth d ce (pre @ ou # post) s) =
       fst (process_ous depth d ce (pre @ post) s) \<and>
     fst (snd (process_ous depth d ce (pre @ ou # post) s)) =
       fst (snd (process_ous depth d ce (pre @ post) s)) \<and>
     filter is_store_call (snd (snd (process_ous depth d ce (pre @ ou # post) s))) =
       filter is_store_call (snd (snd (process_ous depth d ce (pre @ post) s)))"
proof -
  have c: "filter is_store_call c = []" using collector_events [OF assms] .
  obtain t where t: "\<And>s. process_ou depth d (ce :: 'a ce_client) ou s = (None, s, t)"
    and ft: "filter is_store_call t = []"
  proof (cases "describe_organizational_unit d ou")
    case (Inl e)
    then have "\<And>s. process_ou depth d ce ou s = (None, s,
        [DescribeOrganizationalUnit ou,
         Print (''Error getting OU details for '' @ ou @ '': '' @ str e)])"
      by (simp add: process_ou_def get_ou_details_def)
    then show ?thesis using that by simp
  next
    case (Inr n)
    show ?thesis
    proof (cases "n = []")
      case True
      with Inr have "\<And>s. process_ou depth d ce ou s = (None, s, [DescribeOrganizationalUnit ou])"
        by (simp add: process_ou_def get_ou_details_def)
      then show ?thesis using that by simp
    next
      case False
      with Inr assms have "\<And>s. process_ou depth d ce ou s =
          (None, s, [DescribeOrganizationalUnit ou] @ c)"
        by (simp add: process_ou_def get_ou_details_def)
      then show ?thesis using that c by simp
    qed
  qed
  obtain x1 s1 t1 where pre: "process_ous depth d ce pre s = (x1, s1, t1)"
    by (cases "process_ous depth d ce pre s") auto
  obtain x2 s2 t2 where post: "process_ous depth d ce post s1 = (x2, s2, t2)"
    by (cases "process_ous depth d ce post s1") auto
  have with_ou: "process_ous depth d ce (pre @ ou # post) s =
      (case x1 of Some x \<Rightarrow> (Some x, s1, t1) | None \<Rightarrow> (x2, s2, t1 @ t @ t2))"
    using pre post t [of s1] by (simp add: process_ous_append split: option.splits)
  have without: "process_ous depth d ce (pre @ post) s =
      (case x1 of Some x \<Rightarrow> (Some x, s1, t1) | None \<Rightarrow> (x2, s2, t1 @ t2))"
    using pre post by (simp add: process_ous_append split: option.splits)
  have "fst (process_ous depth d ce (pre @ ou # post) s) =
       fst (process_ous depth d ce (pre @ post) s) \<and>
     fst (snd (process_ous depth d ce (pre @ ou # post) s)) =
       fst (snd (process_ous depth d ce (pre @ post) s)) \<and>
     filter is_store_call (snd (snd (process_ous depth d ce (pre @ ou # post) s))) =
       filter is_store_call (snd (snd (process_ous depth d ce (pre @ post) s)))"
    unfolding with_ou without using ft by (simp split: option.splits)
  with t ft show ?thesis by blast
qed

theorem empty_ou_is_skipped_witness:
  "get_accounts_by_ou 1 (departments None) ''ou-z'' =
     Some ([], [ListAccountsForParent ''ou-z'', ListChildren ''ou-z'']) \<and>
   process_ou 1 (departments None) store_client ''ou-z'' finance_store =
     (None, finance_store,
      [DescribeOrganizationalUnit ''ou-z'', ListAccountsForParent ''ou-z'',
       ListChildren ''ou-z'']) \<and>
   fst (snd (process_ous 1 (departments None) store_client ([''ou-f''] @ ''ou-z'' # [''ou-e''])
               finance_store)) =
   fst (snd (process_ous 1 (departments None) store_client ([''ou-f''] @ [''ou-e''])
               finance_store))"
proof -
  have c: "get_accounts_by_ou 1 (departments None) ''ou-z'' =
     Some ([], [ListAccountsForParent ''ou-z'', ListChildren ''ou-z''])"
    by (simp add: departments_def acct_def active_entries_def)
  have p: "process_ou 1 (departments None) store_client ''ou-z'' finance_store =
     (None, finance_store,
      [DescribeOrganizationalUnit ''ou-z'', ListAccountsForParent ''ou-z'',
       ListChildren ''ou-z''])"
    by (simp add: process_ou_def get_ou_details_def departments_def acct_def active_entries_def)
  from empty_ou_is_skipped [OF c, of store_client "[''ou-f'']" "[''ou-e'']" finance_store]
  show ?thesis using c p by simp
qed

text \<open>
  C8. For a top-level OU whose display-name lookup fails, the loop body consists of the
  lookup and the logged error: the collector is not called (no account listing), no
  classification-store call is issued, the store is unchanged and nothing is raised; the
  loop goes on with the remaining top-level OUs from the same store.
\<close>

theorem describe_failure_skips_ou:
  assumes "describe_organizational_unit d ou = Inl e"
  shows "process_ou depth d ce ou s =
       (None, s, [DescribeOrganizationalUnit ou,
                  Print (''Error getting OU details for '' @ ou @ '': '' @ str e)]) \<and>
     process_ous depth d ce (ou # rest) s =
       (case process_ous depth d ce rest s of
          (x, s', t) \<Rightarrow>
            (x, s', [DescribeOrganizationalUnit ou,
                     Print (''Error getting OU details for '' @ ou @ '': '' @ str e)] @ t))"
  using assms by (simp add: process_ou_def get_ou_details_def)

theorem describe_failure_skips_ou_witness:
  "describe_organizational_unit (departments None) ''ou-x'' = Inl (ClientError ''AccessDenied'') \<and>
   process_ou 1 (departments None) store_client ''ou-x'' [] =
     (None, [], [DescribeOrganizationalUnit ''ou-x'',
                 Print ''Error getting OU details for ou-x: AccessDenied'']) \<and>
   process_ous 1 (departments None) store_client [''ou-x'', ''ou-z''] [] =
     (None, [], [DescribeOrganizationalUnit ''ou-x'',
                 Print ''Error getting OU details for ou-x: AccessDenied'',
                 DescribeOrganizationalUnit ''ou-z'', ListAccountsForParent ''ou-z'',
                 ListChildren ''ou-z''])"
proof -
  have d: "describe_organizational_unit (departments None) ''ou-x'' =
      Inl (ClientError ''AccessDenied'')"
    by (simp add: departments_def)
  have z: "process_ous 1 (departments None) store_client [''ou-z''] [] =
     (None, [], [DescribeOrganizationalUnit ''ou-z'', ListAccountsForParent ''ou-z'',
                 ListChildren ''ou-z''])"
    by (simp add: process_ou_def get_ou_details_def departments_def acct_def active_entries_def)
  from describe_failure_skips_ou [OF d, of 1 store_client "[]" "[''ou-z'']"]
  show ?thesis using d z by simp
qed

lemma json_escape_plain: "json_plain c \<Longrightarrow> json_escape c = [c]"
  by (auto simp: json_plain_def json_escape_def)

lemma json_dumps_plain:
  "list_all json_plain m \<Longrightarrow> json_dumps m = [CHR 0x22] @ m @ [CHR 0x22]"
proof -
  assume "list_all json_plain m"
  then have "concat (map json_escape m) = m"
    by (induction m) (simp_all add: json_escape_plain)
  then show ?thesis by (simp add: json_dumps_def)
qed

lemma json_plain_Error: "list_all json_plain ''Error: ''"
  by (simp add: json_plain_def)

text \<open>
  C9. A \<open>ClientError\<close> of the roots listing gives the outcome with status 500 whose
  body is the JSON string encoding of \<open>"Error: "\<close> followed by the diagnostic text of
  the error, and leaves the store untouched. When the roots listing gives a root and the
  collector returns for every top-level OU delivered, the outcome is decided by the
  listing of the root's children alone: status 500 with the diagnostic text of its error
  when a page raises, and status 200 otherwise, whatever the display-name lookups, the
  account and child listings below and the classification-store calls did. A diagnostic
  text made of printable ASCII characters other than the double quote and the backslash
  stands in the body as it is, between double quotes.
\<close>

theorem lambda_handler_outcome:
  "(list_roots d = Inl e \<longrightarrow>
      lambda_handler depth d ce s =
        (Inr \<lparr>statusCode = 500, body = json_dumps (''Error: '' @ str e)\<rparr>, s,
         [ListRoots, Print (''Error in lambda execution: '' @ str e)])) \<and>
   (list_roots d = Inr (root # more_roots) \<and>
    (\<forall>ou \<in> set (concat (pages (list_children d root))). get_accounts_by_ou depth d ou \<noteq> None) \<longrightarrow>
      fst (lambda_handler depth d ce s) =
        (case failure (list_children d root) of
           Some e' \<Rightarrow> Inr \<lparr>statusCode = 500, body = json_dumps (''Error: '' @ str e')\<rparr>
         | None \<Rightarrow>
             Inr \<lparr>statusCode = 200,
                  body = json_dumps ''Cost categories updated successfully''\<rparr>)) \<and>
   (list_all json_plain m \<longrightarrow>
      json_dumps (''Error: '' @ m) = [CHR 0x22] @ ''Error: '' @ m @ [CHR 0x22])"
proof (intro conjI impI)
  assume "list_roots d = Inl e"
  then show "lambda_handler depth d ce s =
        (Inr \<lparr>statusCode = 500, body = json_dumps (''Error: '' @ str e)\<rparr>, s,
         [ListRoots, Print (''Error in lambda execution: '' @ str e)])"
    by (simp add: lambda_handler_def failure_response_def)
next
  assume a: "list_roots d = Inr (root # more_roots) \<and>
    (\<forall>ou \<in> set (concat (pages (list_children d root))). get_accounts_by_ou depth d ou \<noteq> None)"
  obtain ps f where c: "list_children d root = Paginated ps f"
    by (cases "list_children d root")
  from a c have "fst (process_ous depth d ce (concat ps) s) = None"
    by (intro process_ous_returns) simp
  then obtain s' t where p: "process_ous depth d ce (concat ps) s = (None, s', t)"
    by (cases "process_ous depth d ce (concat ps) s") auto
  show "fst (lambda_handler depth d ce s) =
        (case failure (list_children d root) of
           Some e' \<Rightarrow> Inr \<lparr>statusCode = 500, body = json_dumps (''Error: '' @ str e')\<rparr>
         | None \<Rightarrow>
             Inr \<lparr>statusCode = 200,
                  body = json_dumps ''Cost categories updated successfully''\<rparr>)"
    using a c p
    by (simp add: lambda_handler_def failure_response_def success_response_def
        split: option.splits)
next
  assume "list_all json_plain m"
  then have "list_all json_plain (''Error: '' @ m)"
    using json_plain_Error by simp
  from json_dumps_plain [OF this]
  show "json_dumps (''Error: '' @ m) = [CHR 0x22] @ ''Error: '' @ m @ [CHR 0x22]" by simp
qed

theorem lambda_handler_outcome_witness:
  "list_roots unreachable_directory = Inl (ClientError ''AccessDenied'') \<and>
   lambda_handler 1 unreachable_directory store_client finance_store =
     (Inr \<lparr>statusCode = 500, body = [CHR 0x22] @ ''Error: AccessDenied'' @ [CHR 0x22]\<rparr>,
      finance_store, [ListRoots, Print ''Error in lambda execution: AccessDenied'']) \<and>
   list_roots (departments (Some (ClientError ''Throttled''))) = Inr [''r-1''] \<and>
   fst (lambda_handler 1 (departments (Some (ClientError ''Throttled''))) store_client []) =
     Inr \<lparr>statusCode = 500, body = [CHR 0x22] @ ''Error: Throttled'' @ [CHR 0x22]\<rparr> \<and>
   describe_organizational_unit (departments None) ''ou-x'' = Inl (ClientError ''AccessDenied'') \<and>
   store_call_fails (refusing_client ''OU-Finance'') ''Finance'' [''111''] [] \<and>
   fst (lambda_handler 1 (departments None) (refusing_client ''OU-Finance'') []) =
     Inr \<lparr>statusCode = 200,
          body = [CHR 0x22] @ ''Cost categories updated successfully'' @ [CHR 0x22]\<rparr>"
proof -
  have r1: "list_roots unreachable_directory = Inl (ClientError ''AccessDenied'')"
    by (simp add: unreachable_directory_def)
  have p1: "list_all json_plain ''AccessDenied''" by (simp add: json_plain_def)
  have p2: "list_all json_plain ''Throttled''" by (simp add: json_plain_def)
  have p3: "json_dumps ''Cost categories updated successfully'' =
      [CHR 0x22] @ ''Cost categories updated successfully'' @ [CHR 0x22]"
    by (rule json_dumps_plain) (simp add: json_plain_def)
  have r2: "list_roots (departments f) = Inr (''r-1'' # [])" for f
    by (simp add: departments_def)
  have c2: "\<forall>ou \<in> set (concat (pages (list_children (departments f) ''r-1''))).
      get_accounts_by_ou 1 (departments f) ou \<noteq> None" for f
    by (simp add: departments_def acct_def active_entries_def)
  have f2: "failure (list_children (departments f) ''r-1'') = f" for f
    by (simp add: departments_def)
  have x: "describe_organizational_unit (departments None) ''ou-x'' =
      Inl (ClientError ''AccessDenied'')"
    by (simp add: departments_def)
  have y: "store_call_fails (refusing_client ''OU-Finance'') ''Finance'' [''111''] []"
    by (simp add: store_call_fails_def store_call_result_def refusing_client_def store_list_def)
  have a: "lambda_handler 1 unreachable_directory store_client finance_store =
     (Inr \<lparr>statusCode = 500, body = [CHR 0x22] @ ''Error: AccessDenied'' @ [CHR 0x22]\<rparr>,
      finance_store, [ListRoots, Print ''Error in lambda execution: AccessDenied''])"
    using lambda_handler_outcome [of unreachable_directory "ClientError ''AccessDenied''"
        1 store_client finance_store _ _ "''AccessDenied''"] r1 p1
    by simp
  have b: "fst (lambda_handler 1 (departments (Some (ClientError ''Throttled''))) store_client []) =
     Inr \<lparr>statusCode = 500, body = [CHR 0x22] @ ''Error: Throttled'' @ [CHR 0x22]\<rparr>"
    using lambda_handler_outcome [of "departments (Some (ClientError ''Throttled''))" _
        1 store_client "[]" "''r-1''" "[]" "''Throttled''"] r2 c2 p2
    by (simp add: f2)
  have c: "fst (lambda_handler 1 (departments None) (refusing_client ''OU-Finance'') []) =
     Inr \<lparr>statusCode = 200,
          body = [CHR 0x22] @ ''Cost categories updated successfully'' @ [CHR 0x22]\<rparr>"
    using lambda_handler_outcome [of "departments None" _
        1 "refusing_client ''OU-Finance''" "[]" "''r-1''" "[]" "''''"] r2 c2
    by (simp add: f2 p3)
  show ?thesis using r1 r2 x y a b c by simp
qed

text \<open>
  C10. Only a \<open>ClientError\<close> is turned into the failure outcome. When the roots listing
  succeeds with an empty list, \<open>lambda_handler\<close> raises \<open>IndexError\<close> and returns no
  outcome. An exception of another kind raised below escapes in the same way: when the
  collector exceeds the recursion depth at a top-level OU that has a display name, the
  \<open>RecursionError\<close> escapes. And an outcome with status 500 is returned only for a
  \<open>ClientError\<close> of the roots listing or of the listing of the root's children, whose
  diagnostic text it carries.
\<close>

theorem lambda_handler_uncaught:
  "(list_roots d = Inr [] \<longrightarrow> lambda_handler depth d ce s = (Inl IndexError, s, [ListRoots])) \<and>
   (list_roots d = Inr (root # more_roots) \<and>
    ou \<in> set (concat (pages (list_children d root))) \<and>
    describe_organizational_unit d ou = Inr n \<and> n \<noteq> [] \<and>
    get_accounts_by_ou depth d ou = None \<longrightarrow>
      fst (lambda_handler depth d ce s) = Inl RecursionError) \<and>
   (fst (lambda_handler depth d ce s) = Inr r \<and> statusCode r = 500 \<longrightarrow>
      (\<exists>e. r = \<lparr>statusCode = 500, body = json_dumps (''Error: '' @ str e)\<rparr> \<and>
           (list_roots d = Inl e \<or>
            (\<exists>root' roots'. list_roots d = Inr (root' # roots') \<and>
               failure (list_children d root') = Some e))))"
proof (intro conjI impI)
  assume "list_roots d = Inr []"
  then show "lambda_handler depth d ce s = (Inl IndexError, s, [ListRoots])"
    by (simp add: lambda_handler_def)
next
  assume a: "list_roots d = Inr (root # more_roots) \<and>
    ou \<in> set (concat (pages (list_children d root))) \<and>
    describe_organizational_unit d ou = Inr n \<and> n \<noteq> [] \<and>
    get_accounts_by_ou depth d ou = None"
  obtain ps f where c: "list_children d root = Paginated ps f"
    by (cases "list_children d root")
  from a c have "ou \<in> set (concat ps)" by simp
  from process_ous_raises [OF this, of d n depth ce s] a
  have "fst (process_ous depth d ce (concat ps) s) = Some RecursionError" by simp
  then obtain s' t where "process_ous depth d ce (concat ps) s = (Some RecursionError, s', t)"
    by (cases "process_ous depth d ce (concat ps) s") auto
  with a c show "fst (lambda_handler depth d ce s) = Inl RecursionError"
    by (simp add: lambda_handler_def)
next
  assume a: "fst (lambda_handler depth d ce s) = Inr r \<and> statusCode r = 500"
  show "\<exists>e. r = \<lparr>statusCode = 500, body = json_dumps (''Error: '' @ str e)\<rparr> \<and>
           (list_roots d = Inl e \<or>
            (\<exists>root' roots'. list_roots d = Inr (root' # roots') \<and>
               failure (list_children d root') = Some e))"
  proof (cases "list_roots d")
    case (Inl e)
    with a show ?thesis
      by (auto simp: lambda_handler_def failure_response_def)
  next
    case (Inr roots)
    show ?thesis
    proof (cases roots)
      case Nil
      with Inr a show ?thesis by (simp add: lambda_handler_def)
    next
      case (Cons root' roots')
      obtain ps f where c: "list_children d root' = Paginated ps f"
        by (cases "list_children d root'")
      obtain x s' t where p: "process_ous depth d ce (concat ps) s = (x, s', t)"
        by (cases "process_ous depth d ce (concat ps) s") auto
      show ?thesis
      proof (cases f)
        case None
        with a Inr Cons c p show ?thesis
          by (cases x) (auto simp: lambda_handler_def success_response_def)
      next
        case (Some e)
        with a Inr Cons c p have "r = \<lparr>statusCode = 500, body = json_dumps (''Error: '' @ str e)\<rparr>"
          by (cases x) (auto simp: lambda_handler_def failure_response_def)
        with Inr Cons c Some show ?thesis by auto
      qed
    qed
  qed
qed

theorem lambda_handler_uncaught_witness:
  "list_roots rootless_directory = Inr [] \<and>
   lambda_handler 3 rootless_directory store_client finance_store =
     (Inl IndexError, finance_store, [ListRoots]) \<and>
   list_roots cyclic_directory = Inr [''r-1''] \<and>
   get_accounts_by_ou 3 cyclic_directory ''ou-a'' = None \<and>
   fst (lambda_handler 3 cyclic_directory store_client finance_store) = Inl RecursionError \<and>
   fst (lambda_handler 1 (departments (Some (ClientError ''Throttled''))) store_client []) =
     Inr \<lparr>statusCode = 500, body = json_dumps ''Error: Throttled''\<rparr> \<and>
   failure (list_children (departments (Some (ClientError ''Throttled''))) ''r-1'') =
     Some (ClientError ''Throttled'') \<and>
   (\<exists>e. \<lparr>statusCode = 500, body = json_dumps ''Error: Throttled''\<rparr> =
        \<lparr>statusCode = 500, body = json_dumps (''Error: '' @ str e)\<rparr> \<and>
        (list_roots (departments (Some (ClientError ''Throttled''))) = Inl e \<or>
         (\<exists>root' roots'. list_roots (departments (Some (ClientError ''Throttled''))) =
              Inr (root' # roots') \<and>
            failure (list_children (departments (Some (ClientError ''Throttled''))) root') =
              Some e)))"
proof -
  have r1: "list_roots rootless_directory = Inr []"
    by (simp add: rootless_directory_def)
  have r2: "list_roots cyclic_directory = Inr [''r-1'']"
    by (simp add: cyclic_directory_def)
  have c2: "''ou-a'' \<in> set (concat (pages (list_children cyclic_directory ''r-1'')))"
    "describe_organizational_unit cyclic_directory ''ou-a'' = Inr ''Loop''" "''Loop'' \<noteq> []"
    by (simp_all add: cyclic_directory_def)
  have g: "get_accounts_by_ou 3 cyclic_directory ''ou-a'' = None"
    by (simp add: cyclic_directory_def eval_nat_numeral)
  have f: "failure (list_children (departments (Some (ClientError ''Throttled''))) ''r-1'') =
     Some (ClientError ''Throttled'')"
    by (simp add: departments_def)
  have o: "fst (lambda_handler 1 (departments (Some (ClientError ''Throttled''))) store_client []) =
     Inr \<lparr>statusCode = 500, body = json_dumps ''Error: Throttled''\<rparr>"
    by (simp add: lambda_handler_def departments_def process_ou_def get_ou_details_def
        failure_response_def acct_def active_entries_def create_or_update_cost_category_def
        store_client_def store_list_def store_create_def Let_def split: prod.splits)
  have a: "lambda_handler 3 rootless_directory store_client finance_store =
     (Inl IndexError, finance_store, [ListRoots])"
    using lambda_handler_uncaught [of rootless_directory 3 store_client finance_store] r1
    by simp
  have b: "fst (lambda_handler 3 cyclic_directory store_client finance_store) = Inl RecursionError"
    using lambda_handler_uncaught [of cyclic_directory 3 store_client finance_store
        "''r-1''" "[]" "''ou-a''" "''Loop''"] r2 c2 g
    by simp
  have c: "\<exists>e. \<lparr>statusCode = 500, body = json_dumps ''Error: Throttled''\<rparr> =
        \<lparr>statusCode = 500, body = json_dumps (''Error: '' @ str e)\<rparr> \<and>
        (list_roots (departments (Some (ClientError ''Throttled''))) = Inl e \<or>
         (\<exists>root' roots'. list_roots (departments (Some (ClientError ''Throttled''))) =
              Inr (root' # roots') \<and>
            failure (list_children (departments (Some (ClientError ''Throttled''))) root') =
              Some e))"
    using lambda_handler_uncaught [of "departments (Some (ClientError ''Throttled''))" 1
        store_client "[]" _ _ _ _ "\<lparr>statusCode = 500, body = json_dumps ''Error: Throttled''\<rparr>"] o
    by simp
  from r1 r2 g a b o f have "list_roots rootless_directory = Inr [] \<and>
   lambda_handler 3 rootless_directory store_client finance_store =
     (Inl IndexError, finance_store, [ListRoots]) \<and>
   list_roots cyclic_directory = Inr [''r-1''] \<and>
   get_accounts_by_ou 3 cyclic_directory ''ou-a'' = None \<and>
   fst (lambda_handler 3 cyclic_directory store_client finance_store) = Inl RecursionError \<and>
   fst (lambda_handler 1 (departments (Some (ClientError ''Throttled''))) store_client []) =
     Inr \<lparr>statusCode = 500, body = json_dumps ''Error: Throttled''\<rparr> \<and>
   failure (list_children (departments (Some (ClientError ''Throttled''))) ''r-1'') =
     Some (ClientError ''Throttled'')"
    by simp
  with c show ?thesis by blast
qed

section \<open>Two runs against the classification store\<close>

lemma arn_length_le:
  "df \<in> set s \<Longrightarrow> length (def_Arn df) \<le> foldr max (map (\<lambda>df. length (def_Arn df)) s) 0"
  by (induction s) auto

lemma fresh_arn_new: "fresh_arn s \<notin> set (map def_Arn s)"
proof
  assume "fresh_arn s \<in> set (map def_Arn s)"
  then obtain df where df: "df \<in> set s" "def_Arn df = fresh_arn s" by auto
  from arn_length_le [OF df(1)] df(2) show False by (simp add: fresh_arn_def)
qed

lemma set_rules_keeps:
  "def_Name (set_rules n ids df) = def_Name df"
  "def_Arn (set_rules n ids df) = def_Arn df"
  by (simp_all add: set_rules_def)

lemma map_set_rules_keeps:
  "map def_Name (map (set_rules n ids) s) = map def_Name s"
  "map def_Arn (map (set_rules n ids) s) = map def_Arn s"
  by (simp_all add: set_rules_keeps comp_def)

lemma reconciled_update:
  "''OU-'' @ n \<in> set (map def_Name s) \<Longrightarrow> reconciled s (n, ids) = map (set_rules n ids) s"
  by (simp add: reconciled_def)

lemma reconciled_names:
  "set (map def_Name s) \<subseteq> set (map def_Name (reconciled s job))"
  "''OU-'' @ fst job \<in> set (map def_Name (reconciled s job))"
  by (cases job; auto simp: reconciled_def set_rules_keeps image_image)+

lemma wf_reconciled: "wf_store s \<Longrightarrow> wf_store (reconciled s job)"
proof (cases job)
  case (Pair n ids)
  assume wf: "wf_store s"
  show ?thesis
  proof (cases "''OU-'' @ n \<in> set (map def_Name s)")
    case True
    then have "reconciled s job = map (set_rules n ids) s"
      using Pair by (simp add: reconciled_update)
    with wf show ?thesis by (simp only: wf_store_def map_set_rules_keeps)
  next
    case False
    with wf Pair fresh_arn_new [of s] show ?thesis
      by (simp add: reconciled_def wf_store_def)
  qed
qed

lemma wf_foldl_reconciled: "wf_store s \<Longrightarrow> wf_store (foldl reconciled s js)"
  by (induction js arbitrary: s) (simp_all add: wf_reconciled)

lemma foldl_reconciled_names:
  "set (map def_Name s) \<subseteq> set (map def_Name (foldl reconciled s js))"
proof (induction js arbitrary: s)
  case Nil
  show ?case by simp
next
  case (Cons j js)
  from reconciled_names(1) [of s j] Cons.IH [of "reconciled s j"] show ?case by auto
qed

lemma job_names_present:
  "job \<in> set js \<Longrightarrow> ''OU-'' @ fst job \<in> set (map def_Name (foldl reconciled s js))"
proof (induction js arbitrary: s)
  case Nil
  then show ?case by simp
next
  case (Cons j js)
  show ?case
  proof (cases "job = j")
    case True
    from reconciled_names(2) [of j s] foldl_reconciled_names [of "reconciled s j" js] True
    show ?thesis by auto
  next
    case False
    with Cons.prems have "job \<in> set js" by simp
    from Cons.IH [OF this] show ?thesis by simp
  qed
qed


lemma settle_Cons: "settle ((n, ids) # js) df = settle js (set_rules n ids df)"
  by (simp add: settle_def)

lemma settle_snoc: "settle (js @ [(n, ids)]) df = set_rules n ids (settle js df)"
  by (simp add: settle_def)

lemma settle_Nil: "settle [] df = df"
  by (simp add: settle_def)

lemma settle_name: "def_Name (settle js df) = def_Name df"
  by (induction js arbitrary: df) (auto simp: settle_Nil settle_Cons set_rules_keeps)

lemma set_rules_absorb:
  "def_Name df = ''OU-'' @ n \<Longrightarrow> set_rules n ids (set_rules n' ids' df) = set_rules n ids df"
  by (simp add: set_rules_def)

lemma set_rules_settle:
  "def_Name df = ''OU-'' @ n \<Longrightarrow> set_rules n ids (settle js df) = set_rules n ids df"
proof (induction js arbitrary: df)
  case Nil
  show ?case by (simp add: settle_Nil)
next
  case (Cons j js)
  obtain n' ids' where j: "j = (n', ids')" by (cases j)
  have "def_Name (set_rules n' ids' df) = ''OU-'' @ n"
    using Cons.prems by (simp add: set_rules_keeps)
  from Cons.IH [OF this] show ?case
    using Cons.prems by (simp add: j settle_Cons set_rules_absorb)
qed

lemma set_rules_other: "def_Name df \<noteq> ''OU-'' @ n \<Longrightarrow> set_rules n ids df = df"
  by (simp add: set_rules_def)

lemma set_rules_idem: "set_rules n ids (set_rules n ids df) = set_rules n ids df"
  by (simp add: set_rules_def)

text \<open>With every derived name present, a run only rewrites rule sets.\<close>

lemma foldl_reconciled_settle:
  "\<forall>job \<in> set js. ''OU-'' @ fst job \<in> set (map def_Name s) \<Longrightarrow>
   foldl reconciled s js = map (settle js) s"
proof (induction js arbitrary: s)
  case Nil
  show ?case by (simp add: settle_Nil)
next
  case (Cons j js)
  obtain n ids where j: "j = (n, ids)" by (cases j)
  from Cons.prems j have r: "reconciled s j = map (set_rules n ids) s"
    by (simp add: reconciled_update)
  have "\<forall>job \<in> set js. ''OU-'' @ fst job \<in> set (map def_Name (map (set_rules n ids) s))"
    using Cons.prems by (simp only: map_set_rules_keeps) simp
  from Cons.IH [OF this] show ?case
    by (simp add: r [unfolded j] j settle_Cons comp_def)
qed

text \<open>After a run, every definition already carries what the same run would give it.\<close>

lemma settled_after_run:
  "df \<in> set (foldl reconciled s js) \<Longrightarrow> settle js df = df"
proof (induction js arbitrary: df rule: rev_induct)
  case Nil
  show ?case by (simp add: settle_Nil)
next
  case (snoc j js)
  obtain n ids where j: "j = (n, ids)" by (cases j)
  let ?s = "foldl reconciled s js"
  from snoc.prems have df: "df \<in> set (reconciled ?s (n, ids))" by (simp add: j)
  show ?case
  proof (cases "''OU-'' @ n \<in> set (map def_Name ?s)")
    case True
    with df obtain df' where df': "df' \<in> set ?s" "df = set_rules n ids df'"
      by (auto simp: reconciled_update)
    show ?thesis
    proof (cases "def_Name df' = ''OU-'' @ n")
      case True
      then have "def_Name df = ''OU-'' @ n" by (simp add: df' set_rules_keeps)
      from set_rules_settle [OF this, of ids js] show ?thesis
        by (simp add: j settle_snoc df' set_rules_idem)
    next
      case False
      then have "df = df'" by (simp add: df' set_rules_other)
      with snoc.IH [OF df'(1)] False show ?thesis
        by (simp add: j settle_snoc set_rules_other)
    qed
  next
    case False
    let ?new = "\<lparr>def_Name = ''OU-'' @ n, def_Arn = fresh_arn ?s,
                    def_RuleVersion = ''CostCategoryExpression.v1'',
                    def_Rules = build_rules n ids, def_DefaultValue = ''Other''\<rparr>"
    from df False have "df \<in> set ?s \<or> df = ?new" by (auto simp: reconciled_def)
    then show ?thesis
    proof
      assume old: "df \<in> set ?s"
      with False have "def_Name df \<noteq> ''OU-'' @ n" by force
      with snoc.IH [OF old] show ?thesis by (simp add: j settle_snoc set_rules_other)
    next
      assume new: "df = ?new"
      then have "def_Name df = ''OU-'' @ n" by simp
      from set_rules_settle [OF this, of ids js] show ?thesis
        by (simp add: j settle_snoc) (simp add: new set_rules_def)
    qed
  qed
qed

lemma second_run_same_store:
  "foldl reconciled (foldl reconciled s js) js = foldl reconciled s js"
proof -
  let ?s1 = "foldl reconciled s js"
  have "\<forall>job \<in> set js. ''OU-'' @ fst job \<in> set (map def_Name ?s1)"
    using job_names_present [of _ js s] by blast
  from foldl_reconciled_settle [OF this]
  have "foldl reconciled ?s1 js = map (settle js) ?s1" .
  also have "\<dots> = ?s1"
    by (rule map_idI) (rule settled_after_run)
  finally show ?thesis .
qed

lemma one_definition:
  "distinct (map def_Name s) \<Longrightarrow> N \<in> set (map def_Name s) \<Longrightarrow>
   length (filter (\<lambda>df. def_Name df = N) s) = 1"
proof (induction s)
  case Nil
  then show ?case by simp
next
  case (Cons df s)
  show ?case
  proof (cases "def_Name df = N")
    case True
    with Cons.prems(1) have "N \<notin> def_Name ` set s" by simp
    then have "\<forall>x \<in> set s. def_Name x \<noteq> N" by blast
    then have "filter (\<lambda>df. def_Name df = N) s = []" by (simp add: filter_empty_conv)
    with True show ?thesis by simp
  next
    case False
    with Cons show ?thesis by auto
  qed
qed

lemma find_map_ref:
  "find P (map f xs) = map_option f (find (\<lambda>x. P (f x)) xs)"
  by (induction xs) auto

lemma no_store_call_no_create: "filter is_store_call t = [] \<Longrightarrow> filter is_create t = []"
proof -
  have "is_create e \<Longrightarrow> is_store_call e" for e by (cases e) simp_all
  then show "filter is_store_call t = [] \<Longrightarrow> filter is_create t = []"
    by (auto simp: filter_empty_conv)
qed

lemma store_update_by_name:
  assumes "wf_store s" "df \<in> set s" "def_Name df = ''OU-'' @ n"
  shows "store_update (def_Arn df) ''CostCategoryExpression.v1'' (build_rules n ids) s =
     Inr (map (set_rules n ids) s)"
proof -
  have "(def_Arn x = def_Arn df) = (def_Name x = ''OU-'' @ n)" if "x \<in> set s" for x
  proof
    assume "def_Arn x = def_Arn df"
    moreover from assms(1) have "inj_on def_Arn (set s)" by (simp add: wf_store_def distinct_map)
    ultimately have "x = df" using that assms(2) by (intro inj_onD [of def_Arn "set s"]) simp_all
    with assms(3) show "def_Name x = ''OU-'' @ n" by simp
  next
    assume "def_Name x = ''OU-'' @ n"
    moreover from assms(1) have "inj_on def_Name (set s)" by (simp add: wf_store_def distinct_map)
    ultimately have "x = df" using that assms(2,3) by (intro inj_onD [of def_Name "set s"]) simp_all
    then show "def_Arn x = def_Arn df" by simp
  qed
  then have "map (\<lambda>x. if def_Arn x = def_Arn df
        then x\<lparr>def_RuleVersion := ''CostCategoryExpression.v1'', def_Rules := build_rules n ids\<rparr>
        else x) s = map (set_rules n ids) s"
    by (intro map_cong) (simp_all add: set_rules_def)
  with assms(2) show ?thesis by (simp add: store_update_def)
qed

lemma create_or_update_reconciled:
  assumes "wf_store s"
  shows "\<exists>t. create_or_update_cost_category store_client n ids s = (None, reconciled s (n, ids), t) \<and>
     (''OU-'' @ n \<in> set (map def_Name s) \<longrightarrow> filter is_create t = [])"
proof -
  let ?ref = "\<lambda>df. \<lparr>ref_Name = def_Name df, CostCategoryArn = def_Arn df\<rparr>"
  have l: "list_cost_category_definitions store_client s = Inr (map ?ref s)"
    by (simp add: store_client_def store_list_def)
  have f: "find (\<lambda>cat. ref_Name cat = ''OU-'' @ n) (map ?ref s) =
      map_option ?ref (find (\<lambda>df. def_Name df = ''OU-'' @ n) s)"
    by (simp add: find_map_ref)
  show ?thesis
  proof (cases "find (\<lambda>df. def_Name df = ''OU-'' @ n) s")
    case None
    then have absent: "''OU-'' @ n \<notin> set (map def_Name s)"
      by (auto simp: find_None_set)
    from None f have "find (\<lambda>cat. ref_Name cat = ''OU-'' @ n) (map ?ref s) = None" by simp
    from create_or_update_not_found [OF l this, of ids] absent show ?thesis
      by (simp add: store_client_def store_create_def reconciled_def)
  next
    case (Some df)
    from find_Some_set [OF Some] have df: "df \<in> set s" "def_Name df = ''OU-'' @ n" by simp_all
    then have present: "''OU-'' @ n \<in> set (map def_Name s)" by force
    from Some f have "find (\<lambda>cat. ref_Name cat = ''OU-'' @ n) (map ?ref s) = Some (?ref df)"
      by simp
    from create_or_update_found [OF l this, of ids]
      store_update_by_name [OF assms df, of ids] present
    show ?thesis
      by (simp add: store_client_def reconciled_update)
  qed
qed

lemma process_ous_store:
  "wf_store s \<Longrightarrow>
   \<exists>x t. process_ous depth d store_client ous s = (x, foldl reconciled s (jobs depth d ous), t) \<and>
     ((\<forall>job \<in> set (jobs depth d ous). ''OU-'' @ fst job \<in> set (map def_Name s)) \<longrightarrow>
        filter is_create t = [])"
proof (induction ous arbitrary: s)
  case Nil
  show ?case by simp
next
  case (Cons ou ous)
  from Cons.IH [OF Cons.prems] obtain x t where
    skip: "process_ous depth d store_client ous s = (x, foldl reconciled s (jobs depth d ous), t)"
    and skip_t: "(\<forall>job \<in> set (jobs depth d ous). ''OU-'' @ fst job \<in> set (map def_Name s)) \<longrightarrow>
        filter is_create t = []"
    by blast
  show ?case
  proof (cases "describe_organizational_unit d ou")
    case (Inl e)
    then show ?thesis using skip skip_t
      by (simp add: process_ou_def get_ou_details_def)
  next
    case (Inr n)
    show ?thesis
    proof (cases "n = []")
      case True
      with Inr show ?thesis using skip skip_t
        by (simp add: process_ou_def get_ou_details_def)
    next
      case named: False
      show ?thesis
      proof (cases "get_accounts_by_ou depth d ou")
        case None
        with Inr named show ?thesis
          by (simp add: process_ou_def get_ou_details_def)
      next
        case (Some r)
        obtain a c where r: "r = (a, c)" by (cases r)
        have c: "filter is_create c = []"
          using collector_events [of depth d ou a c] Some r
          by (simp add: no_store_call_no_create)
        show ?thesis
        proof (cases "a = []")
          case True
          with Inr named Some r c show ?thesis using skip skip_t
            by (simp add: process_ou_def get_ou_details_def)
        next
          case False
          let ?job = "(n, map entry_Id a)"
          from create_or_update_reconciled [OF Cons.prems, of n "map entry_Id a"]
          obtain t3 where
            t3: "create_or_update_cost_category store_client n (map entry_Id a) s =
                (None, reconciled s ?job, t3)"
            and t3c: "''OU-'' @ n \<in> set (map def_Name s) \<longrightarrow> filter is_create t3 = []"
            by blast
          have p: "process_ou depth d store_client ou s =
              (None, reconciled s ?job, [DescribeOrganizationalUnit ou] @ c @ t3)"
            using process_ou_reconciles [OF Inr named _ False t3] Some r by simp
          from Cons.IH [OF wf_reconciled [OF Cons.prems], of ?job] obtain x' t' where
            rest: "process_ous depth d store_client ous (reconciled s ?job) =
                (x', foldl reconciled (reconciled s ?job) (jobs depth d ous), t')"
            and rest_t: "(\<forall>job \<in> set (jobs depth d ous).
                ''OU-'' @ fst job \<in> set (map def_Name (reconciled s ?job))) \<longrightarrow>
                filter is_create t' = []"
            by blast
          have j: "jobs depth d (ou # ous) = ?job # jobs depth d ous"
            using Inr named Some r False by simp
          have run: "process_ous depth d store_client (ou # ous) s =
              (x', foldl reconciled s (jobs depth d (ou # ous)),
               [DescribeOrganizationalUnit ou] @ c @ t3 @ t')"
            using p rest by (simp add: j del: jobs.simps)
          have "filter is_create ([DescribeOrganizationalUnit ou] @ c @ t3 @ t') = []"
            if all: "\<forall>job \<in> set (jobs depth d (ou # ous)). ''OU-'' @ fst job \<in> set (map def_Name s)"
          proof -
            from all have "''OU-'' @ n \<in> set (map def_Name s)" by (simp add: j del: jobs.simps)
            with t3c have 1: "filter is_create t3 = []" by simp
            from all reconciled_names(1) [of s ?job]
            have "\<forall>job \<in> set (jobs depth d ous).
                ''OU-'' @ fst job \<in> set (map def_Name (reconciled s ?job))"
              by (auto simp: j simp del: jobs.simps)
            with rest_t have "filter is_create t' = []" by simp
            with 1 c show ?thesis by simp
          qed
          with run show ?thesis by blast
        qed
      qed
    qed
  qed
qed

lemma process_ous_exception_same:
  "fst (process_ous depth d ce ous s) = fst (process_ous depth d ce ous s')"
proof (induction ous arbitrary: s s')
  case Nil
  show ?case by simp
next
  case (Cons ou ous)
  obtain x s1 t1 where p: "process_ou depth d ce ou s = (x, s1, t1)"
    by (cases "process_ou depth d ce ou s") auto
  obtain x' s1' t1' where p': "process_ou depth d ce ou s' = (x', s1', t1')"
    by (cases "process_ou depth d ce ou s'") auto
  have "x = x'"
    using process_ou_exception [of depth d ce ou s] process_ou_exception [of depth d ce ou s'] p p'
    by simp
  with p p' Cons.IH [of s1 s1'] show ?case
    by (cases x') (auto split: prod.splits)
qed

lemma jobs_complete:
  assumes "fst (process_ous depth d ce ous s) = None" "ou \<in> set ous"
    "describe_organizational_unit d ou = Inr n" "n \<noteq> []"
    "get_accounts_by_ou depth d ou = Some (a, c)" "a \<noteq> []"
  shows "(n, map entry_Id a) \<in> set (jobs depth d ous)"
  using assms(1,2)
proof (induction ous arbitrary: s)
  case Nil
  then show ?case by simp
next
  case (Cons o' ous)
  obtain x s1 t1 where p: "process_ou depth d ce o' s = (x, s1, t1)"
    by (cases "process_ou depth d ce o' s") auto
  with Cons.prems(1) have x: "x = None" and rest: "fst (process_ous depth d ce ous s1) = None"
    by (cases x; auto split: prod.splits)+
  from process_ou_exception [of depth d ce o' s] p x
  have ok: "case describe_organizational_unit d o' of Inl e \<Rightarrow> True
      | Inr n' \<Rightarrow> \<not> (n' \<noteq> [] \<and> get_accounts_by_ou depth d o' = None)"
    by (auto split: sum.splits if_splits)
  have sub: "set (jobs depth d ous) \<subseteq> set (jobs depth d (o' # ous))"
  proof (cases "describe_organizational_unit d o'")
    case (Inl e)
    then show ?thesis by simp
  next
    case (Inr n')
    show ?thesis
    proof (cases "get_accounts_by_ou depth d o'")
      case None
      with Inr ok show ?thesis by auto
    next
      case (Some r)
      obtain a' c' where "r = (a', c')" by (cases r)
      with Inr Some show ?thesis by auto
    qed
  qed
  show ?case
  proof (cases "o' = ou")
    case True
    with assms(3-6) show ?thesis by simp
  next
    case False
    with Cons.prems(2) have "ou \<in> set ous" by simp
    from Cons.IH [OF rest this] sub show ?thesis by blast
  qed
qed

lemma lambda_handler_root:
  assumes "list_roots d = Inr (root # more_roots)"
    and "list_children d root = Paginated ps f"
    and "process_ous depth d ce (concat ps) s = (x, s', t)"
  shows "lambda_handler depth d ce s =
     (case x of
        Some ex \<Rightarrow> (Inl ex, s', [ListRoots, ListChildren root] @ t)
      | None \<Rightarrow>
          (case f of
             Some e \<Rightarrow>
               (Inr (failure_response e), s',
                [ListRoots, ListChildren root] @ t @
                [Print (''Error in lambda execution: '' @ str e)])
           | None \<Rightarrow> (Inr success_response, s', [ListRoots, ListChildren root] @ t)))"
  using assms by (simp add: lambda_handler_def split: option.splits)

text \<open>
  C3. Two successive runs over the same directory, against the classification store, the
  first starting from a store whose names and handles are unique and returning an outcome.
  The second run returns the same outcome, issues no create call (its reconciliations are
  updates) and leaves the store exactly as the first run left it, so every definition has
  the rules it had after the first run; and for every top-level OU with a non-empty
  display name and a non-empty collected account list, that store holds exactly one
  definition with the OU's derived name.
\<close>

theorem reconciliation_idempotent:
  assumes "wf_store s0"
    and "lambda_handler depth d store_client s0 = (Inr r1, s1, t1)"
    and "lambda_handler depth d store_client s1 = (out2, s2, t2)"
  shows "s2 = s1 \<and> out2 = Inr r1 \<and> filter is_create t2 = [] \<and>
     (\<forall>root more_roots ou n accounts c.
        list_roots d = Inr (root # more_roots) \<and>
        ou \<in> set (concat (pages (list_children d root))) \<and>
        describe_organizational_unit d ou = Inr n \<and> n \<noteq> [] \<and>
        get_accounts_by_ou depth d ou = Some (accounts, c) \<and> accounts \<noteq> [] \<longrightarrow>
        length (filter (\<lambda>df. def_Name df = ''OU-'' @ n) s2) = 1)"
proof (cases "list_roots d")
  case (Inl e)
  then have "lambda_handler depth d store_client s =
      (Inr (failure_response e), s, [ListRoots, Print (''Error in lambda execution: '' @ str e)])"
    for s :: store
    by (simp add: lambda_handler_def)
  with assms(2,3) Inl show ?thesis by auto
next
  case (Inr roots)
  show ?thesis
  proof (cases roots)
    case Nil
    with Inr assms(2) show ?thesis by (simp add: lambda_handler_def)
  next
    case (Cons root more_roots)
    with Inr have roots: "list_roots d = Inr (root # more_roots)" by simp
    obtain ps f where ch: "list_children d root = Paginated ps f"
      by (cases "list_children d root")
    let ?js = "jobs depth d (concat ps)"
    from process_ous_store [OF assms(1), of depth d "concat ps"] obtain x1 u1 where
      p1: "process_ous depth d store_client (concat ps) s0 = (x1, foldl reconciled s0 ?js, u1)"
      by blast
    from lambda_handler_root [OF roots ch p1] assms(2)
    have x1: "x1 = None" and s1: "s1 = foldl reconciled s0 ?js"
      by (cases x1; cases f; simp)+
    have wf1: "wf_store s1" unfolding s1 by (rule wf_foldl_reconciled [OF assms(1)])
    from process_ous_store [OF wf1, of depth d "concat ps"] obtain x2 u2 where
      p2: "process_ous depth d store_client (concat ps) s1 = (x2, foldl reconciled s1 ?js, u2)"
      and c2: "(\<forall>job \<in> set ?js. ''OU-'' @ fst job \<in> set (map def_Name s1)) \<longrightarrow>
        filter is_create u2 = []"
      by blast
    have "x2 = x1"
      using process_ous_exception_same [of depth d store_client "concat ps" s1 s0] p1 p2
      by simp
    with x1 have x2: "x2 = None" by simp
    have same: "foldl reconciled s1 ?js = s1"
      unfolding s1 by (rule second_run_same_store)
    have present: "\<forall>job \<in> set ?js. ''OU-'' @ fst job \<in> set (map def_Name s1)"
      unfolding s1 using job_names_present [of _ ?js s0] by blast
    with c2 have u2: "filter is_create u2 = []" by simp
    from lambda_handler_root [OF roots ch p1] assms(2) x1
    have r1: "Inr r1 = (case f of Some e \<Rightarrow> Inr (failure_response e)
        | None \<Rightarrow> (Inr success_response :: py_exception + response))"
      by (cases f) simp_all
    from lambda_handler_root [OF roots ch p2] assms(3) x2 same
    have out2: "out2 = (case f of Some e \<Rightarrow> Inr (failure_response e)
        | None \<Rightarrow> Inr success_response)"
      and s2: "s2 = s1"
      and t2: "t2 = [ListRoots, ListChildren root] @ u2 @
          (case f of Some e \<Rightarrow> [Print (''Error in lambda execution: '' @ str e)] | None \<Rightarrow> [])"
      by (cases f; simp)+
    have creates: "filter is_create t2 = []"
      unfolding t2 using u2 by (simp split: option.splits)
    have one: "length (filter (\<lambda>df. def_Name df = ''OU-'' @ n) s2) = 1"
      if "list_roots d = Inr (root' # roots')"
        and "ou \<in> set (concat (pages (list_children d root')))"
        and "describe_organizational_unit d ou = Inr n" and "n \<noteq> []"
        and "get_accounts_by_ou depth d ou = Some (accounts, c)" and "accounts \<noteq> []"
      for root' roots' ou n accounts c
    proof -
      from that(1) roots have "root' = root" by simp
      with that(2) ch have ou: "ou \<in> set (concat ps)" by simp
      have "fst (process_ous depth d store_client (concat ps) s0) = None"
        using p1 x1 by simp
      from jobs_complete [OF this ou that(3-6)]
      have "(n, map entry_Id accounts) \<in> set ?js" .
      with present have "''OU-'' @ n \<in> set (map def_Name s1)" by force
      moreover from wf1 have "distinct (map def_Name s1)" by (simp add: wf_store_def)
      ultimately show ?thesis unfolding s2 by (intro one_definition)
    qed
    from s2 out2 r1 creates one show ?thesis by (simp only:) blast
  qed
qed


theorem reconciliation_idempotent_witness:
  "wf_store finance_store \<and>
   fst (lambda_handler 1 (departments None) store_client finance_store) = Inr success_response \<and>
   fst (snd (lambda_handler 1 (departments None) store_client finance_store)) = departments_store \<and>
   fst (lambda_handler 1 (departments None) store_client departments_store) = Inr success_response \<and>
   fst (snd (lambda_handler 1 (departments None) store_client departments_store)) =
     departments_store \<and>
   filter is_create (snd (snd (lambda_handler 1 (departments None) store_client departments_store))) = [] \<and>
   length (filter (\<lambda>df. def_Name df = ''OU-Engineering'') departments_store) = 1"
proof -
  let ?d = "departments None"
  have wf: "wf_store finance_store"
    by (simp add: wf_store_def finance_store_def)
  have ous: "concat (pages (list_children ?d ''r-1'')) = [''ou-x'', ''ou-f'', ''ou-z'', ''ou-e'']"
    by (simp add: departments_def)
  have x: "process_ou 1 ?d store_client ''ou-x'' s =
      (None, s, [DescribeOrganizationalUnit ''ou-x'',
                 Print ''Error getting OU details for ou-x: AccessDenied''])" for s :: store
    by (simp add: process_ou_def get_ou_details_def departments_def)
  have z: "process_ou 1 ?d store_client ''ou-z'' s =
      (None, s, [DescribeOrganizationalUnit ''ou-z'', ListAccountsForParent ''ou-z'',
                 ListChildren ''ou-z''])" for s :: store
    by (simp add: process_ou_def get_ou_details_def departments_def acct_def active_entries_def)
  have f: "fst (process_ou 1 ?d store_client ''ou-f'' finance_store) = None"
    "fst (snd (process_ou 1 ?d store_client ''ou-f'' finance_store)) =
      [\<lparr>def_Name = ''OU-Finance'', def_Arn = ''arn:finance'',
        def_RuleVersion = ''CostCategoryExpression.v1'',
        def_Rules = build_rules ''Finance'' [''111''], def_DefaultValue = ''Other''\<rparr>]"
    by (simp_all add: process_ou_def get_ou_details_def departments_def acct_def
        active_entries_def create_or_update_cost_category_def store_client_def store_list_def
        store_update_def finance_store_def Let_def)
  have e: "fst (process_ou 1 ?d store_client ''ou-e''
        [\<lparr>def_Name = ''OU-Finance'', def_Arn = ''arn:finance'',
          def_RuleVersion = ''CostCategoryExpression.v1'',
          def_Rules = build_rules ''Finance'' [''111''], def_DefaultValue = ''Other''\<rparr>]) = None"
    "fst (snd (process_ou 1 ?d store_client ''ou-e''
        [\<lparr>def_Name = ''OU-Finance'', def_Arn = ''arn:finance'',
          def_RuleVersion = ''CostCategoryExpression.v1'',
          def_Rules = build_rules ''Finance'' [''111''], def_DefaultValue = ''Other''\<rparr>])) =
      departments_store"
    by (simp_all add: process_ou_def get_ou_details_def departments_def acct_def
        active_entries_def create_or_update_cost_category_def store_client_def store_list_def
        store_create_def fresh_arn_def departments_store_def Let_def)
  have run1: "fst (lambda_handler 1 ?d store_client finance_store) = Inr success_response \<and>
      fst (snd (lambda_handler 1 ?d store_client finance_store)) = departments_store"
    using x [of finance_store] z f e
    by (simp add: lambda_handler_def departments_def split: prod.splits option.splits) auto
  obtain t1 where r1: "lambda_handler 1 ?d store_client finance_store =
      (Inr success_response, departments_store, t1)"
    using run1 by (cases "lambda_handler 1 ?d store_client finance_store") auto
  obtain out2 s2 t2 where r2: "lambda_handler 1 ?d store_client departments_store = (out2, s2, t2)"
    by (cases "lambda_handler 1 ?d store_client departments_store") auto
  have roots: "list_roots ?d = Inr (''r-1'' # [])" by (simp add: departments_def)
  have eng: "''ou-e'' \<in> set (concat (pages (list_children ?d ''r-1'')))"
    "describe_organizational_unit ?d ''ou-e'' = Inr ''Engineering''" "''Engineering'' \<noteq> []"
    "get_accounts_by_ou 1 ?d ''ou-e'' =
       Some ([\<lparr>entry_Id = ''222'', entry_Name = ''e1''\<rparr>],
             [ListAccountsForParent ''ou-e'', ListChildren ''ou-e''])"
    "[\<lparr>entry_Id = ''222'', entry_Name = ''e1''\<rparr>] \<noteq> []"
    by (simp_all add: departments_def acct_def active_entries_def)
  from reconciliation_idempotent [OF wf r1 r2]
  have "s2 = departments_store" "out2 = Inr success_response" "filter is_create t2 = []"
    "length (filter (\<lambda>df. def_Name df = ''OU-'' @ ''Engineering'') s2) = 1"
    using roots eng by blast+
  with wf run1 r2 show ?thesis by simp
qed

end
